theory Spec2Isabelle
  imports Complex_Main
begin

text \<open>
  A model of the turn orchestrator of the chat application: \<open>handleSendMessage\<close> and
  \<open>handleCancelStream\<close> of \<open>hooks/useChatHandler.ts\<close>, \<open>planResponse\<close> of
  \<open>services/geminiService.ts\<close> and \<open>handleRetry\<close> of \<open>App.tsx\<close>. A run of the asynchronous
  handler is the list of its effects in program order (state setters, timer operations,
  updaters of a conversation's message list, service calls), as a function of the values
  the handler closes over, its arguments, and the answers of the outside world.
\<close>

section \<open>Strings\<close>

text \<open>
  A JavaScript string is modelled as a HOL \<open>string\<close>; each character stands for one
  UTF-16 code unit below 256, so \<open>length\<close> is the \<open>.length\<close> of such a string.
  \<open>js_whitespace\<close> is the set matched by \<open>\s\<close> and removed by \<open>String.prototype.trim\<close>
  within that range: tab, line feed, vertical tab, form feed, carriage return, space and
  the no-break space.
\<close>

definition js_whitespace :: "char \<Rightarrow> bool" where
  "js_whitespace c \<longleftrightarrow>
     c \<in> set [CHR 0x09, CHR 0x0A, CHR 0x0B, CHR 0x0C, CHR 0x0D, CHR 0x20, CHR 0xA0]"

definition js_trim :: "string \<Rightarrow> string" where
  "js_trim s = rev (dropWhile js_whitespace (rev (dropWhile js_whitespace s)))"

section \<open>Data model (types.ts)\<close>

datatype MessageRole = User | Model

datatype ChatModel =
  Gemini25Flash | Gemini25Pro | Gemini25FlashLite | Gemini20Flash | Gemini20FlashLite

datatype Tool = Smart | WebSearch | Thinking | Translator | UrlReader | Chemistry

datatype ToolInUse = Url

record Image =
  base64 :: string
  mimeType :: string

record AttachedFile =
  fileBase64 :: string
  fileMimeType :: string
  fileName :: string
  fileSize :: nat

record ThoughtStep =
  phase :: string
  step :: string
  concise_step :: string

text \<open>
  A grounding chunk is kept as its \<open>(uri, title)\<close> pair; the molecule data (atoms with
  floating-point coordinates, bonds, formula) is never inspected by the handler and is
  kept as an opaque payload.
\<close>

type_synonym GroundingChunk = "string \<times> string"
type_synonym MoleculeData = string

text \<open>
  Every optional field of \<open>ChatMessage\<close> is an \<open>option\<close>: \<open>None\<close> is the absent (or
  \<open>undefined\<close>) property. \<open>thinkingDuration\<close> counts the ticks of the 100 ms timer and
  \<open>generationTime\<close> is in milliseconds.
\<close>

record ChatMessage =
  id' :: string
  role :: MessageRole
  content :: string
  timestamp :: "string option"
  images :: "Image list option"
  file' :: "AttachedFile option"
  url :: "string option"
  modelUsed :: "ChatModel option"
  sources :: "GroundingChunk list option"
  thoughts :: "ThoughtStep list option"
  searchPlan :: "ThoughtStep list option"
  thinkingDuration :: "nat option"
  isAnalyzingImage :: "bool option"
  isAnalyzingFile :: "bool option"
  analysisCompleted :: "bool option"
  isPlanning :: "bool option"
  toolInUse :: "ToolInUse option"
  isLongToolUse :: "bool option"
  memoryUpdated :: "bool option"
  inputTokens :: "int option"
  outputTokens :: "int option"
  systemTokens :: "int option"
  generationTime :: "nat option"
  isMoleculeRequest :: "bool option"
  molecule :: "MoleculeData option"

text \<open>A message with only the three required properties.\<close>

definition mkMessage :: "string \<Rightarrow> MessageRole \<Rightarrow> string \<Rightarrow> ChatMessage" where
  "mkMessage i r c =
     \<lparr> id' = i, role = r, content = c, timestamp = None, images = None, file' = None,
       url = None, modelUsed = None, sources = None, thoughts = None, searchPlan = None,
       thinkingDuration = None, isAnalyzingImage = None, isAnalyzingFile = None,
       analysisCompleted = None, isPlanning = None, toolInUse = None, isLongToolUse = None,
       memoryUpdated = None, inputTokens = None, outputTokens = None, systemTokens = None,
       generationTime = None, isMoleculeRequest = None, molecule = None \<rparr>"

text \<open>JavaScript truthiness of an optional boolean property.\<close>

definition truthy :: "bool option \<Rightarrow> bool" where
  "truthy b \<longleftrightarrow> b = Some True"

section \<open>The history builder (useChatHandler.ts, transformMessagesToHistory)\<close>

datatype Part = Text string | InlineData string string

record Content =
  contentRole :: MessageRole
  parts :: "Part list"

text \<open>
  The first filter drops a message when \<open>role === 'model' && !content?.trim() && !images\<close>;
  an array, even an empty one, is truthy, so \<open>!images\<close> holds only for an absent property.
\<close>

definition isBlankModelMessage :: "ChatMessage \<Rightarrow> bool" where
  "isBlankModelMessage m \<longleftrightarrow> role m = Model \<and> js_trim (content m) = [] \<and> images m = None"

definition messageParts :: "ChatMessage \<Rightarrow> Part list" where
  "messageParts msg =
     (if content msg \<noteq> [] then [Text (content msg)] else []) @
     (case images msg of
        None \<Rightarrow> []
      | Some imgs \<Rightarrow> map (\<lambda>image. InlineData (base64 image) (mimeType image)) imgs) @
     (case file' msg of
        None \<Rightarrow> []
      | Some f \<Rightarrow> [InlineData (fileBase64 f) (fileMimeType f)])"

definition messageToContent :: "ChatMessage \<Rightarrow> Content" where
  "messageToContent msg = \<lparr> contentRole = role msg, parts = messageParts msg \<rparr>"

definition transformMessagesToHistory :: "ChatMessage list \<Rightarrow> Content list" where
  "transformMessagesToHistory msgs =
     filter (\<lambda>c. length (parts c) > 0)
       (map messageToContent (filter (\<lambda>m. \<not> isBlankModelMessage m) msgs))"

section \<open>Token accounting (useChatHandler.ts, estimateTokens and lines 480-503)\<close>

definition estimateTokens :: "string \<Rightarrow> int" where
  "estimateTokens text = (if text = [] then 0 else \<lceil>real (length text) / 4\<rceil>)"

record UsageMetadata =
  promptTokenCount :: "int option"
  candidatesTokenCount :: "int option"

text \<open>\<open>usageMetadata.promptTokenCount || 0\<close>\<close>

definition totalPromptTokens :: "UsageMetadata \<Rightarrow> int" where
  "totalPromptTokens u = (case promptTokenCount u of None \<Rightarrow> 0 | Some n \<Rightarrow> n)"

text \<open>
  \<open>toolUsed = toolInUse || isImageAnalysisRequest || isFileAnalysisRequest || isWebSearchEnabled\<close>
\<close>

definition toolUsed :: "ToolInUse option \<Rightarrow> bool \<Rightarrow> bool \<Rightarrow> bool \<Rightarrow> bool" where
  "toolUsed tool isImageAnalysisRequest isFileAnalysisRequest isWebSearchEnabled \<longleftrightarrow>
     tool \<noteq> None \<or> isImageAnalysisRequest \<or> isFileAnalysisRequest \<or> isWebSearchEnabled"

definition annotateTokens ::
  "UsageMetadata \<Rightarrow> string \<Rightarrow> bool \<Rightarrow> ChatMessage list \<Rightarrow> ChatMessage list" where
  "annotateTokens usage fullPrompt used prev =
     (if prev \<noteq> [] \<and> role (last prev) = Model then
        let userTextTokens = estimateTokens fullPrompt;
            displayInputTokens = (if used then totalPromptTokens usage else userTextTokens);
            sysTokens = (if used then 0 else totalPromptTokens usage - userTextTokens)
        in butlast prev @
           [(last prev)\<lparr> inputTokens := Some displayInputTokens,
                          outputTokens := candidatesTokenCount usage,
                          systemTokens := (if sysTokens > 0 then Some sysTokens else None) \<rparr>]
      else prev)"

section \<open>Cancellation (useChatHandler.ts, handleCancelStream)\<close>

definition stopNotice :: string where
  "stopNotice = ''*Response generation stopped.*''"

definition stripTransient :: "ChatMessage \<Rightarrow> ChatMessage" where
  "stripTransient m =
     m\<lparr> isAnalyzingImage := None, isAnalyzingFile := None, isPlanning := None,
        toolInUse := None, isLongToolUse := None, thoughts := None, searchPlan := None \<rparr>"

text \<open>
  The updater of \<open>handleCancelStream\<close>; \<open>newId\<close> and \<open>now\<close> are the fresh
  \<open>crypto.randomUUID()\<close> and \<open>new Date().toISOString()\<close> of the pushed message.
\<close>

definition cancelMessages :: "string \<Rightarrow> string \<Rightarrow> ChatMessage list \<Rightarrow> ChatMessage list" where
  "cancelMessages newId now prev =
     (let cleanedMessages = map stripTransient prev in
      if cleanedMessages \<noteq> [] \<and> role (last cleanedMessages) = Model then
        let lastMessage = last cleanedMessages;
            newContent =
              (if js_trim (content lastMessage) \<noteq> []
               then js_trim (content lastMessage) @ ''\<newline>\<newline>'' @ stopNotice
               else stopNotice)
        in butlast cleanedMessages @ [lastMessage\<lparr> content := newContent \<rparr>]
      else cleanedMessages @
           [(mkMessage newId Model stopNotice)\<lparr> timestamp := Some now \<rparr>])"

section \<open>The planner's post-processing (geminiService.ts, planResponse)\<close>

text \<open>The JSON object returned by the planning model, as parsed.\<close>

record PlannerJson =
  jsonNeedsWebSearch :: bool
  jsonIsUrlReadRequest :: bool
  jsonIsCreatorRequest :: bool
  jsonIsCapabilitiesRequest :: bool
  jsonNeedsThinking :: bool
  jsonNeedsCodeContext :: bool
  jsonIsMoleculeRequest :: bool
  jsonMoleculeName :: "string option"
  jsonThoughts :: "ThoughtStep list option"
  jsonSearchPlan :: "ThoughtStep list option"

record ResponsePlan =
  needsWebSearch :: bool
  isUrlReadRequest :: bool
  isCreatorRequest :: bool
  isCapabilitiesRequest :: bool
  needsThinking :: bool
  needsCodeContext :: bool
  planIsMoleculeRequest :: bool
  moleculeName :: "string option"
  planThoughts :: "ThoughtStep list"
  planSearchPlan :: "ThoughtStep list"

text \<open>
  \<open>None\<close> is a failed planning call (or unparsable answer): the \<open>catch\<close> block returns
  the fallback plan.
\<close>

definition planResponse :: "PlannerJson option \<Rightarrow> ResponsePlan" where
  "planResponse r =
     (case r of
        Some result \<Rightarrow>
          (let tool = jsonNeedsWebSearch result \<or> jsonIsUrlReadRequest result \<or>
                      jsonIsMoleculeRequest result
           in \<lparr> needsWebSearch = jsonNeedsWebSearch result,
                isUrlReadRequest = jsonIsUrlReadRequest result,
                isCreatorRequest = jsonIsCreatorRequest result,
                isCapabilitiesRequest = jsonIsCapabilitiesRequest result,
                needsThinking = (if tool then False else jsonNeedsThinking result),
                needsCodeContext = jsonNeedsCodeContext result,
                planIsMoleculeRequest = jsonIsMoleculeRequest result,
                moleculeName = jsonMoleculeName result,
                planThoughts =
                  (if tool then []
                   else case jsonThoughts result of None \<Rightarrow> [] | Some t \<Rightarrow> t),
                planSearchPlan =
                  (case jsonSearchPlan result of None \<Rightarrow> [] | Some p \<Rightarrow> p) \<rparr>)
      | None \<Rightarrow>
          \<lparr> needsWebSearch = True, isUrlReadRequest = False, isCreatorRequest = False,
            isCapabilitiesRequest = False, needsThinking = False, needsCodeContext = False,
            planIsMoleculeRequest = False, moleculeName = None, planThoughts = [],
            planSearchPlan = [] \<rparr>)"

section \<open>Tool routing (useChatHandler.ts, lines 226-249)\<close>

text \<open>The local variables of one run of \<open>handleSendMessage\<close>.\<close>

record TurnVars =
  plan :: ResponsePlan
  isThinkingEnabled :: bool
  isWebSearchEnabled :: bool
  finalPromptForModel :: string
  isImageAnalysisRequest :: bool
  isFileAnalysisRequest :: bool
  toolInUseVar :: "ToolInUse option"

definition initialVars :: "ResponsePlan \<Rightarrow> string \<Rightarrow> TurnVars" where
  "initialVars p fullPrompt =
     \<lparr> plan = p, isThinkingEnabled = needsThinking p, isWebSearchEnabled = needsWebSearch p,
       finalPromptForModel = fullPrompt, isImageAnalysisRequest = False,
       isFileAnalysisRequest = False, toolInUseVar = None \<rparr>"

text \<open>The dispatch table; \<open>smart\<close> and \<open>translator\<close> have no entry.\<close>

fun toolOverrides :: "Tool \<Rightarrow> TurnVars \<Rightarrow> TurnVars" where
  "toolOverrides UrlReader v =
     v\<lparr> plan := (plan v)\<lparr> isUrlReadRequest := True \<rparr>, isWebSearchEnabled := False,
        isThinkingEnabled := False, isImageAnalysisRequest := False \<rparr>"
| "toolOverrides Thinking v =
     v\<lparr> isThinkingEnabled := True, isWebSearchEnabled := False,
        plan := (plan v)\<lparr> isUrlReadRequest := False \<rparr> \<rparr>"
| "toolOverrides WebSearch v =
     v\<lparr> isWebSearchEnabled := True, isThinkingEnabled := False,
        plan := (plan v)\<lparr> isUrlReadRequest := False \<rparr>, isImageAnalysisRequest := False \<rparr>"
| "toolOverrides Chemistry v =
     v\<lparr> plan := (plan v)\<lparr> planIsMoleculeRequest := True \<rparr>, isWebSearchEnabled := False,
        isThinkingEnabled := False \<rparr>"
| "toolOverrides Smart v = v"
| "toolOverrides Translator v = v"

text \<open>
  Lines 226-249: the overrides, then the attachment flags; an image attachment switches
  thinking off and empties \<open>plan.thoughts\<close>, a file attachment does neither.
\<close>

definition hasImages :: "Image list option \<Rightarrow> bool" where
  "hasImages imgs \<longleftrightarrow> (case imgs of None \<Rightarrow> False | Some xs \<Rightarrow> length xs > 0)"

definition routeTurn ::
  "Tool \<Rightarrow> ResponsePlan \<Rightarrow> string \<Rightarrow> Image list option \<Rightarrow> AttachedFile option \<Rightarrow> TurnVars" where
  "routeTurn selectedTool p fullPrompt imgs f =
     (let v1 = toolOverrides selectedTool (initialVars p fullPrompt);
          v2 = v1\<lparr> isImageAnalysisRequest := hasImages imgs,
                   isFileAnalysisRequest := (f \<noteq> None) \<rparr>
      in if isImageAnalysisRequest v2
         then v2\<lparr> isThinkingEnabled := False, plan := (plan v2)\<lparr> planThoughts := [] \<rparr> \<rparr>
         else v2)"

text \<open>Line 296, the prompt rewritten by the URL reader.\<close>

definition urlPrompt :: "string \<Rightarrow> string \<Rightarrow> string \<Rightarrow> string" where
  "urlPrompt u cleanedContent fullPrompt =
     ''[URL: '' @ u @ '']\<newline>\<newline>[EXTRACTED WEBPAGE CONTENT]:\<newline>'' @ cleanedContent @
     ''\<newline>\<newline>[USER QUESTION]:\<newline>'' @ fullPrompt"

text \<open>Line 316, the fixed instruction after a successful molecule lookup.\<close>

definition moleculePrompt :: "string \<Rightarrow> string" where
  "moleculePrompt name =
     ''I have successfully found and displayed the 3D model and key properties for '' @ name @
     ''. Now, please provide a brief, helpful description focusing on its common uses or significance.''"

section \<open>Title extraction (useChatHandler.ts, lines 446-464)\<close>

text \<open>
  \<open>titleMatch\<close> is group 1 of \<open>displayContent.match(/^\s*TITLE:\s*([^\n]+)/)\<close>. Both
  \<open>\s*\<close> are greedy. After \<open>TITLE:\<close> the second \<open>\s*\<close> first takes the whole run of
  whitespace; if a character follows, it is not whitespace, hence not a line feed, and the
  group is the text up to the next line feed. If nothing follows, the matcher backtracks:
  it gives characters of the whitespace run back one at a time, and the group needs its
  first character not to be a line feed, so the group is the last character of the run that
  is not a line feed (all characters behind it are line feeds); when the run has no such
  character there is no match.
\<close>

definition titleMatch :: "string \<Rightarrow> string option" where
  "titleMatch s =
     (let s1 = dropWhile js_whitespace s in
      if take 6 s1 \<noteq> ''TITLE:'' then None
      else
        let r = drop 6 s1;
            run = takeWhile js_whitespace r;
            rest = dropWhile js_whitespace r
        in if rest \<noteq> [] then Some (takeWhile (\<lambda>c. c \<noteq> CHR 0x0A) rest)
           else (case dropWhile (\<lambda>c. c = CHR 0x0A) (rev run) of
                   [] \<Rightarrow> None
                 | c # _ \<Rightarrow> Some [c]))"

text \<open>
  \<open>stripTitle\<close> is \<open>replace(/^\s*TITLE:\s*[^\n]*\n?/, '')\<close>: every item after \<open>TITLE:\<close> may
  match the empty string, so the greedy choice is the match.
\<close>

definition stripTitle :: "string \<Rightarrow> string" where
  "stripTitle s =
     (let s1 = dropWhile js_whitespace s in
      if take 6 s1 \<noteq> ''TITLE:'' then s
      else
        let r = dropWhile (\<lambda>c. c \<noteq> CHR 0x0A) (dropWhile js_whitespace (drop 6 s1))
        in (case r of [] \<Rightarrow> [] | c # t \<Rightarrow> (if c = CHR 0x0A then t else r)))"

section \<open>Updates of a conversation's message list\<close>

text \<open>
  Every updater that \<open>useChatHandler.ts\<close> (and \<open>handleRetry\<close> of \<open>App.tsx\<close>) passes to
  \<open>updateConversationMessages\<close>, with the line it is written at.
\<close>

datatype MsgUpdate =
    AppendUserAndPlanning ChatMessage ChatMessage \<comment> \<open>line 199\<close>
  | AppendPlanning ChatMessage \<comment> \<open>line 201\<close>
  | MarkAnalyzingImage \<comment> \<open>line 251\<close>
  | MarkAnalyzingFile \<comment> \<open>line 257\<close>
  | ToolErrorShown string \<comment> \<open>line 265, \<open>handleToolError\<close>\<close>
  | LongToolUseFired \<comment> \<open>line 277, the 20 s timer\<close>
  | UrlToolStarted \<comment> \<open>line 292\<close>
  | MoleculeStarted \<comment> \<open>line 304\<close>
  | MoleculeFound MoleculeData \<comment> \<open>line 310\<close>
  | MoleculeFailed string \<comment> \<open>line 322\<close>
  | PlanningDone "ThoughtStep list" \<comment> \<open>line 335\<close>
  | ThinkingTick nat \<comment> \<open>line 348, the 100 ms timer\<close>
  | SearchPlanShown "ThoughtStep list" \<comment> \<open>line 362\<close>
  | ImageAnalysisDone \<comment> \<open>line 426\<close>
  | FileAnalysisDone \<comment> \<open>line 431\<close>
  | StreamChunk string "GroundingChunk list option" string string \<comment> \<open>line 468\<close>
  | TokensAnnotated UsageMetadata string bool \<comment> \<open>line 481\<close>
  | MemoryUpdated \<comment> \<open>line 567\<close>
  | ErrorShown string string string \<comment> \<open>line 585\<close>
  | AnalysisFlagsCleared \<comment> \<open>line 605\<close>
  | GenerationTimeStamped nat \<comment> \<open>line 614\<close>
  | CancelUpdate string string \<comment> \<open>line 115, \<open>handleCancelStream\<close>\<close>
  | SliceTo nat \<comment> \<open>\<open>handleRetry\<close>, \<open>prev.slice(0, lastModelMessageIndex)\<close>\<close>

text \<open>
  Writing \<open>newMessages[newMessages.length - 1] = ...\<close> into an empty array sets the
  property \<open>-1\<close> and leaves the array empty; \<open>prev.map\<close> with the test
  \<open>i === prev.length - 1\<close> does the same.
\<close>

definition updateLast :: "(ChatMessage \<Rightarrow> ChatMessage) \<Rightarrow> ChatMessage list \<Rightarrow> ChatMessage list" where
  "updateLast f ms = (if ms = [] then [] else butlast ms @ [f (last ms)])"

definition updateLastModel :: "(ChatMessage \<Rightarrow> ChatMessage) \<Rightarrow> ChatMessage list \<Rightarrow> ChatMessage list" where
  "updateLastModel f ms = (if ms \<noteq> [] \<and> role (last ms) = Model then butlast ms @ [f (last ms)] else ms)"

text \<open>
  \<open>prev.map(m => m.id === prev[prev.length - 2]?.id ? f(m) : m)\<close>: with fewer than two
  messages the index is out of range, the right-hand side is \<open>undefined\<close> and no id equals it.
\<close>

definition updateSecondLastById :: "(ChatMessage \<Rightarrow> ChatMessage) \<Rightarrow> ChatMessage list \<Rightarrow> ChatMessage list" where
  "updateSecondLastById f prev =
     (if length prev < 2 then prev
      else map (\<lambda>m. if id' m = id' (prev ! (length prev - 2)) then f m else m) prev)"

definition toolErrorText :: "string \<Rightarrow> string" where
  "toolErrorText errorMessage = ''Sorry, I couldn't use that tool. Error: '' @ errorMessage"

definition moleculeErrorText :: "string \<Rightarrow> string" where
  "moleculeErrorText name =
     ''Sorry, I couldn't find a 3D model for '' @ [CHR 0x22] @ name @ [CHR 0x22] @
     ''. Please check the spelling or try a different compound.''"

definition errorPrefix :: string where
  "errorPrefix = ''Sorry, I encountered an error:''"

definition errorText :: "string \<Rightarrow> string" where
  "errorText friendly = errorPrefix @ '' '' @ friendly"

fun applyUpdate :: "MsgUpdate \<Rightarrow> ChatMessage list \<Rightarrow> ChatMessage list" where
  "applyUpdate (AppendUserAndPlanning newUserMessage planningMessage) prev =
     prev @ [newUserMessage, planningMessage]"
| "applyUpdate (AppendPlanning planningMessage) prev = prev @ [planningMessage]"
| "applyUpdate MarkAnalyzingImage prev =
     updateSecondLastById (\<lambda>m. m\<lparr> isAnalyzingImage := Some True \<rparr>) prev"
| "applyUpdate MarkAnalyzingFile prev =
     updateSecondLastById (\<lambda>m. m\<lparr> isAnalyzingFile := Some True \<rparr>) prev"
| "applyUpdate (ToolErrorShown errorMessage) prev =
     updateLast (\<lambda>m. m\<lparr> toolInUse := None, isPlanning := Some False,
                           content := toolErrorText errorMessage \<rparr>) prev"
| "applyUpdate LongToolUseFired prev =
     updateLastModel (\<lambda>m. m\<lparr> isLongToolUse := Some True \<rparr>) prev"
| "applyUpdate UrlToolStarted prev =
     updateLast (\<lambda>m. m\<lparr> isPlanning := Some False, toolInUse := Some Url \<rparr>) prev"
| "applyUpdate MoleculeStarted prev =
     updateLast (\<lambda>m. m\<lparr> isPlanning := Some False, isMoleculeRequest := Some True \<rparr>) prev"
| "applyUpdate (MoleculeFound moleculeData) prev =
     updateLast (\<lambda>m. m\<lparr> isMoleculeRequest := Some False, molecule := Some moleculeData \<rparr>) prev"
| "applyUpdate (MoleculeFailed name) prev =
     updateLast (\<lambda>m. m\<lparr> isMoleculeRequest := Some False, isPlanning := Some False,
                           content := moleculeErrorText name \<rparr>) prev"
| "applyUpdate (PlanningDone ths) prev =
     (if prev \<noteq> [] \<and> (truthy (isPlanning (last prev)) \<or> toolInUse (last prev) \<noteq> None)
      then butlast prev @
           [(last prev)\<lparr> isPlanning := Some False, toolInUse := None, thoughts := Some ths \<rparr>]
      else prev)"
| "applyUpdate (ThinkingTick t) prev =
     updateLastModel (\<lambda>m. m\<lparr> thinkingDuration := Some t \<rparr>) prev"
| "applyUpdate (SearchPlanShown sp) prev =
     updateLastModel (\<lambda>m. m\<lparr> searchPlan := Some sp \<rparr>) prev"
| "applyUpdate ImageAnalysisDone prev =
     map (\<lambda>m. if role m = User \<and> truthy (isAnalyzingImage m)
               then m\<lparr> isAnalyzingImage := Some False, analysisCompleted := Some True \<rparr>
               else m) prev"
| "applyUpdate FileAnalysisDone prev =
     map (\<lambda>m. if truthy (isAnalyzingFile m) then m\<lparr> isAnalyzingFile := Some False \<rparr> else m) prev"
| "applyUpdate (StreamChunk displayContent srcs newId now) prevMessages =
     (if prevMessages \<noteq> [] \<and> role (last prevMessages) = Model
      then butlast prevMessages @
           [(last prevMessages)\<lparr> content := displayContent, sources := srcs,
                                  isPlanning := Some False \<rparr>]
      else prevMessages @
           [(mkMessage newId Model displayContent)\<lparr> sources := srcs, timestamp := Some now \<rparr>])"
| "applyUpdate (TokensAnnotated usage fullPrompt used) prev =
     annotateTokens usage fullPrompt used prev"
| "applyUpdate MemoryUpdated prev =
     updateLastModel (\<lambda>m. m\<lparr> memoryUpdated := Some True \<rparr>) prev"
| "applyUpdate (ErrorShown friendly newId now) prev =
     (if prev = [] then prev
      else if role (last prev) = User
      then prev @ [(mkMessage newId Model (errorText friendly))\<lparr> timestamp := Some now \<rparr>]
      else butlast prev @
           [(last prev)\<lparr> isPlanning := Some False, toolInUse := None,
                          content := errorText friendly \<rparr>])"
| "applyUpdate AnalysisFlagsCleared prev =
     map (\<lambda>m. let rest = m\<lparr> isAnalyzingImage := None, isAnalyzingFile := None \<rparr>
               in if truthy (analysisCompleted m) then rest\<lparr> analysisCompleted := Some True \<rparr>
                  else rest) prev"
| "applyUpdate (GenerationTimeStamped t) prev =
     (if prev \<noteq> [] \<and> role (last prev) = Model \<and>
         take (length errorPrefix) (content (last prev)) \<noteq> errorPrefix
      then butlast prev @ [(last prev)\<lparr> generationTime := Some t \<rparr>]
      else prev)"
| "applyUpdate (CancelUpdate newId now) prev = cancelMessages newId now prev"
| "applyUpdate (SliceTo n) prev = take n prev"

section \<open>Conversations, the handler's closure and the outside world\<close>

record ConvoSummary =
  summaryId :: string
  userMessageId :: string
  modelMessageId :: string
  serialNumber :: nat
  userInput :: string
  summary :: string

record Conversation =
  convId :: string
  title :: string
  messages :: "ChatMessage list"
  createdAt :: string
  isPinned :: "bool option"
  isGeneratingTitle :: "bool option"
  summaries :: "ConvoSummary list option"

record CodeSnippet =
  snippetId :: string
  description :: string
  language :: string
  code :: string

text \<open>
  The values that one render of \<open>useChatHandler\<close> closes over. \<open>handleSendMessage\<close> reads
  \<open>conversations\<close>, \<open>activeConversationId\<close> and \<open>isLoading\<close> from this closure during
  the whole asynchronous run, while every write goes to the live state through a
  functional updater.
\<close>

record HandlerEnv =
  apiKey :: "string option"
  conversations :: "Conversation list"
  activeConversationId :: "string option"
  isLoading :: bool
  selectedTool :: Tool
  selectedChatModel :: ChatModel
  codeMemory :: "CodeSnippet list"

record SendArgs =
  prompt :: string
  argImages :: "Image list option"
  argFile :: "AttachedFile option"
  argUrl :: "string option"
  overrideModel :: "ChatModel option"
  isRetry :: bool

record Chunk =
  chunkText :: string
  chunkUsage :: "UsageMetadata option"
  groundingChunks :: "GroundingChunk list option"

text \<open>The await at which the user's cancellation arrives, if it does.\<close>

datatype CancelPoint =
    DuringPlan | DuringUrlFetch | DuringMolecule | DuringCodeSearch | DuringStreamOpen
  | DuringChunk nat

text \<open>
  Everything the run receives from outside: fresh identifiers, the clock, the answers (or
  failures, \<open>Inl\<close> with the error's message) of the services, the chunks the stream
  delivers and the error it may end with, the text \<open>getFriendlyErrorMessage\<close> gives for an
  error, and the point of cancellation.
\<close>

record World =
  newConversationId :: string
  now :: string
  userMessageId' :: string
  planningMessageId :: string
  extraMessageId :: string
  plannerJson :: "PlannerJson option"
  urlFetchResult :: "string + string"
  moleculeResult :: "string + MoleculeData"
  relevantCode :: "string + string list"
  streamOpenError :: "string option"
  chunks :: "Chunk list"
  streamError :: "string option"
  friendlyMessage :: "string \<Rightarrow> string"
  cancelAt :: "CancelPoint option"
  finalElapsedTime :: nat

section \<open>Effects\<close>

datatype NetworkCall =
    PlanResponse string "Image list option" "AttachedFile option" ChatModel
  | FetchAndParseUrlContent string
  | GetMoleculeData string
  | FindRelevantCode string "(string \<times> string) list"
  | GenerateContentStream ChatModel bool "Content list"
    \<comment> \<open>model, first turn (title directive in the system instruction), contents\<close>
  | SendMessageStream ChatModel bool bool "Content list" "Part list"
    \<comment> \<open>model, thinking enabled, first turn, history, message\<close>
  | GenerateConvoSummaries "(ChatMessage \<times> ChatMessage) list" nat
  | UpdateMemory string string

datatype ConvUpdate = SetTitle string | TitleGenerationDone

datatype Effect =
    SetConversationsPrepend Conversation
  | SetActiveConversationId string
  | LogError string
  | SetError "string option"
  | SetIsLoading bool
  | SetCancelledRef bool
  | StartResponseTimer
  | StopResponseTimer
  | StartLongToolUseTimer
  | ClearLongToolUseTimer
  | SetIsLongToolUse bool
  | SetIsThinking bool
  | StartThinkingTimer
  | ClearThinkingIntervals
  | SetIsSearchingWeb bool
  | SetActiveSuggestionNull
  | UpdateConversationMessages string MsgUpdate
  | UpdateConversation string ConvUpdate
  | Call NetworkCall

text \<open>How a run leaves the \<open>try\<close> block, or goes on with its variables.\<close>

datatype 'a Step = Continue 'a | Return | Throw string

definition thenStep ::
  "Effect list \<times> 'a Step \<Rightarrow> ('a \<Rightarrow> Effect list \<times> 'b Step) \<Rightarrow> Effect list \<times> 'b Step" where
  "thenStep m f =
     (case m of
        (es, Continue a) \<Rightarrow> (case f a of (es', r) \<Rightarrow> (es @ es', r))
      | (es, Return) \<Rightarrow> (es, Return)
      | (es, Throw e) \<Rightarrow> (es, Throw e))"

text \<open>JavaScript truthiness of an optional string.\<close>

definition truthyString :: "string option \<Rightarrow> bool" where
  "truthyString s \<longleftrightarrow> (case s of None \<Rightarrow> False | Some x \<Rightarrow> x \<noteq> [])"

section \<open>handleCancelStream\<close>

definition handleCancelStream :: "string option \<Rightarrow> World \<Rightarrow> Effect list" where
  "handleCancelStream active w =
     [SetCancelledRef True, ClearThinkingIntervals, StopResponseTimer, SetIsLoading False,
      SetIsSearchingWeb False, SetIsLongToolUse False] @
     (case active of
        None \<Rightarrow> []
      | Some cid \<Rightarrow>
          if cid = [] then []
          else [UpdateConversationMessages cid (CancelUpdate (extraMessageId w) (now w))])"

text \<open>
  The cancellation arriving while the run waits at \<open>p\<close>; by then the conversation of the
  run is the active one.
\<close>

definition cancelDuring :: "CancelPoint \<Rightarrow> string \<Rightarrow> World \<Rightarrow> Effect list" where
  "cancelDuring p cid w = (if cancelAt w = Some p then handleCancelStream (Some cid) w else [])"

text \<open>\<open>isCancelledRef.current\<close> after the effects \<open>es\<close> of a run that reset it at its start.\<close>

definition isCancelled :: "Effect list \<Rightarrow> bool" where
  "isCancelled es \<longleftrightarrow> SetCancelledRef True \<in> set es"

section \<open>handleSendMessage\<close>

text \<open>
  Left out of the model: the text of the system instruction (persona, developer and
  capabilities contexts, memory, summaries and code snippets; the title directive of the
  first turn is the flag passed with the request), the writer of the code memory, the
  continuations of the detached promises, and the firing of the timers (their updaters are
  \<open>LongToolUseFired\<close>, \<open>ThinkingTick\<close> and \<open>MemoryUpdated\<close>; no effect list contains them).
\<close>

text \<open>Line 156, the entry guard.\<close>

definition sendRejected :: "HandlerEnv \<Rightarrow> SendArgs \<Rightarrow> bool" where
  "sendRejected env args \<longleftrightarrow>
     (js_trim (prompt args) = [] \<and> argImages args = None \<and> argFile args = None \<and>
      \<not> truthyString (argUrl args)) \<or>
     isLoading env \<or> \<not> truthyString (apiKey env)"

definition modelToUse :: "HandlerEnv \<Rightarrow> SendArgs \<Rightarrow> ChatModel" where
  "modelToUse env args =
     (case overrideModel args of Some m \<Rightarrow> m | None \<Rightarrow> selectedChatModel env)"

definition planningMessage :: "HandlerEnv \<Rightarrow> SendArgs \<Rightarrow> World \<Rightarrow> ChatMessage" where
  "planningMessage env args w =
     (mkMessage (planningMessageId w) Model [])
       \<lparr> isPlanning := Some True, modelUsed := Some (modelToUse env args),
         timestamp := Some (now w) \<rparr>"

definition newUserMessage :: "HandlerEnv \<Rightarrow> SendArgs \<Rightarrow> World \<Rightarrow> ChatMessage" where
  "newUserMessage env args w =
     (mkMessage (userMessageId' w) User (prompt args))
       \<lparr> images := argImages args, file' := argFile args, url := argUrl args,
         modelUsed := Some (modelToUse env args), timestamp := Some (now w) \<rparr>"

text \<open>Lines 195-202.\<close>

definition appendForTurn :: "HandlerEnv \<Rightarrow> SendArgs \<Rightarrow> World \<Rightarrow> MsgUpdate" where
  "appendForTurn env args w =
     (if \<not> isRetry args
      then AppendUserAndPlanning (newUserMessage env args w) (planningMessage env args w)
      else AppendPlanning (planningMessage env args w))"

text \<open>Line 209 and the check after it; on success the routing of lines 226-249.\<close>

definition planPhase :: "HandlerEnv \<Rightarrow> SendArgs \<Rightarrow> World \<Rightarrow> string \<Rightarrow> Effect list \<times> TurnVars Step" where
  "planPhase env args w cid =
     (let es = [Call (PlanResponse (prompt args) (argImages args) (argFile args)
                        (modelToUse env args))] @ cancelDuring DuringPlan cid w
      in if isCancelled es then (es, Return)
         else (es, Continue (routeTurn (selectedTool env) (planResponse (plannerJson w))
                               (prompt args) (argImages args) (argFile args))))"

text \<open>Lines 247-285: the analysis flags on the user's message and the 20 s timer.\<close>

definition markPhase :: "string \<Rightarrow> TurnVars \<Rightarrow> Effect list \<times> TurnVars Step" where
  "markPhase cid v =
     ((if isImageAnalysisRequest v then [UpdateConversationMessages cid MarkAnalyzingImage] else []) @
      (if isFileAnalysisRequest v then [UpdateConversationMessages cid MarkAnalyzingFile] else []) @
      [StartLongToolUseTimer],
      Continue v)"

definition handleToolError :: "string \<Rightarrow> string \<Rightarrow> Effect list" where
  "handleToolError cid errorMessage =
     [ClearLongToolUseTimer, SetIsLongToolUse False,
      UpdateConversationMessages cid (ToolErrorShown errorMessage),
      SetIsLoading False, StopResponseTimer]"

text \<open>
  Lines 287-300. A rejected fetch goes to \<open>handleToolError\<close> without a look at the
  cancellation flag; a resolved one checks it.
\<close>

definition urlPhase :: "SendArgs \<Rightarrow> World \<Rightarrow> string \<Rightarrow> TurnVars \<Rightarrow> Effect list \<times> TurnVars Step" where
  "urlPhase args w cid v =
     (if isUrlReadRequest (plan v) then
        (if \<not> truthyString (argUrl args)
         then (handleToolError cid ''No valid URL was provided for the URL Reader tool.'', Return)
         else
           let u = (case argUrl args of Some x \<Rightarrow> x | None \<Rightarrow> []);
               es = [UpdateConversationMessages cid UrlToolStarted,
                     Call (FetchAndParseUrlContent u)] @ cancelDuring DuringUrlFetch cid w
           in (case urlFetchResult w of
                 Inl urlError \<Rightarrow> (es @ handleToolError cid urlError, Return)
               | Inr cleanedContent \<Rightarrow>
                   if isCancelled es then (es, Return)
                   else (es, Continue (v\<lparr> toolInUseVar := Some Url,
                                            finalPromptForModel :=
                                              urlPrompt u cleanedContent (prompt args) \<rparr>))))
      else ([], Continue v))"

text \<open>Lines 302-332; \<open>plan.moleculeName || fullPrompt\<close>.\<close>

definition moleculeNameOf :: "SendArgs \<Rightarrow> TurnVars \<Rightarrow> string" where
  "moleculeNameOf args v =
     (if truthyString (moleculeName (plan v))
      then (case moleculeName (plan v) of Some n \<Rightarrow> n | None \<Rightarrow> [])
      else prompt args)"

definition moleculePhase :: "SendArgs \<Rightarrow> World \<Rightarrow> string \<Rightarrow> TurnVars \<Rightarrow> Effect list \<times> TurnVars Step" where
  "moleculePhase args w cid v =
     (if planIsMoleculeRequest (plan v) then
        let name = moleculeNameOf args v;
            es = [UpdateConversationMessages cid MoleculeStarted, Call (GetMoleculeData name)] @
                 cancelDuring DuringMolecule cid w
        in (case moleculeResult w of
              Inl chemError \<Rightarrow>
                (es @ [LogError chemError,
                       UpdateConversationMessages cid (MoleculeFailed name),
                       SetIsLoading False, StopResponseTimer], Return)
            | Inr moleculeData \<Rightarrow>
                if isCancelled es then (es, Return)
                else (es @ [UpdateConversationMessages cid (MoleculeFound moleculeData)],
                      Continue (v\<lparr> finalPromptForModel := moleculePrompt name,
                                   isWebSearchEnabled := False, isThinkingEnabled := False \<rparr>)))
      else ([], Continue v))"

text \<open>Lines 335-371.\<close>

definition preStreamPhase :: "string \<Rightarrow> TurnVars \<Rightarrow> Effect list \<times> TurnVars Step" where
  "preStreamPhase cid v =
     ([UpdateConversationMessages cid (PlanningDone (planThoughts (plan v)))] @
      (if isThinkingEnabled v \<and> length (planThoughts (plan v)) > 0
       then [SetIsThinking True, StartThinkingTimer] else []) @
      (if isWebSearchEnabled v
       then [SetIsSearchingWeb True] @
            (if length (planSearchPlan (plan v)) > 0
             then [UpdateConversationMessages cid (SearchPlanShown (planSearchPlan (plan v)))]
             else [])
       else []),
      Continue v)"

text \<open>
  Lines 376-382. The snippets found only enter the system instruction, which is not part
  of the model.
\<close>

definition codePhase :: "HandlerEnv \<Rightarrow> SendArgs \<Rightarrow> World \<Rightarrow> string \<Rightarrow> TurnVars \<Rightarrow> Effect list \<times> TurnVars Step" where
  "codePhase env args w cid v =
     (if needsCodeContext (plan v) \<and> length (codeMemory env) > 0 then
        let es = [Call (FindRelevantCode (prompt args)
                          (map (\<lambda>sn. (snippetId sn, description sn)) (codeMemory env)))] @
                 cancelDuring DuringCodeSearch cid w
        in (case relevantCode w of
              Inl e \<Rightarrow> (es, Throw e)
            | Inr relevantIds \<Rightarrow> if isCancelled es then (es, Return) else (es, Continue v))
      else ([], Continue v))"

text \<open>Lines 387-391.\<close>

definition userMessageParts :: "SendArgs \<Rightarrow> TurnVars \<Rightarrow> Part list" where
  "userMessageParts args v =
     (case argImages args of
        None \<Rightarrow> []
      | Some imgs \<Rightarrow> map (\<lambda>image. InlineData (base64 image) (mimeType image)) imgs) @
     (case argFile args of
        None \<Rightarrow> []
      | Some f \<Rightarrow> [InlineData (fileBase64 f) (fileMimeType f)]) @
     (if finalPromptForModel v \<noteq> [] then [Text (finalPromptForModel v)] else [])"

text \<open>Lines 393-416, the request that opens the stream.\<close>

definition streamCall :: "HandlerEnv \<Rightarrow> SendArgs \<Rightarrow> bool \<Rightarrow> ChatMessage list \<Rightarrow> TurnVars \<Rightarrow> NetworkCall" where
  "streamCall env args isFirstTurnInConversation historyMessages v =
     (if isWebSearchEnabled v
      then GenerateContentStream (modelToUse env args) isFirstTurnInConversation
             (transformMessagesToHistory historyMessages @
              [\<lparr> contentRole = User, parts = userMessageParts args v \<rparr>])
      else SendMessageStream (modelToUse env args) (isThinkingEnabled v)
             isFirstTurnInConversation (transformMessagesToHistory historyMessages)
             (userMessageParts args v))"

text \<open>Lines 387-432. Nothing looks at the cancellation flag between the await and the loop.\<close>

definition streamOpenPhase ::
  "HandlerEnv \<Rightarrow> SendArgs \<Rightarrow> World \<Rightarrow> string \<Rightarrow> bool \<Rightarrow> ChatMessage list \<Rightarrow> TurnVars \<Rightarrow>
   Effect list \<times> TurnVars Step" where
  "streamOpenPhase env args w cid isFirstTurnInConversation historyMessages v =
     (if length (userMessageParts args v) = 0 then ([], Throw ''Cannot send an empty message.'')
      else
        let es = [Call (streamCall env args isFirstTurnInConversation historyMessages v)] @
                 cancelDuring DuringStreamOpen cid w
        in (case streamOpenError w of
              Some e \<Rightarrow> (es, Throw e)
            | None \<Rightarrow>
                (es @ [ClearLongToolUseTimer, SetIsLongToolUse False] @
                 (if isThinkingEnabled v then [ClearThinkingIntervals] else []) @
                 (if isWebSearchEnabled v then [SetIsSearchingWeb False] else []) @
                 (if isImageAnalysisRequest v
                  then [UpdateConversationMessages cid ImageAnalysisDone] else []) @
                 (if isFileAnalysisRequest v
                  then [UpdateConversationMessages cid FileAnalysisDone] else []),
                 Continue v)))"

text \<open>The variables of the stream loop, lines 434-436.\<close>

record StreamState =
  finalModelResponse :: string
  titleExtracted :: bool
  usageMetadata :: "UsageMetadata option"

definition initialStreamState :: StreamState where
  "initialStreamState = \<lparr> finalModelResponse = [], titleExtracted = False, usageMetadata = None \<rparr>"

text \<open>Lines 443-477, the body of the loop for one chunk.\<close>

definition processChunk :: "bool \<Rightarrow> string \<Rightarrow> World \<Rightarrow> Chunk \<Rightarrow> StreamState \<Rightarrow> Effect list \<times> StreamState" where
  "processChunk isFirstTurnInConversation cid w chunk st =
     (let usage = (case chunkUsage chunk of Some u \<Rightarrow> Some u | None \<Rightarrow> usageMetadata st);
          acc = finalModelResponse st @ chunkText chunk;
          titleStep =
            (if isFirstTurnInConversation \<and> \<not> titleExtracted st then
               (case titleMatch acc of
                  Some g \<Rightarrow> ([UpdateConversation cid (SetTitle (js_trim g))], CHR 0x0A \<in> set acc)
                | None \<Rightarrow>
                    if length acc > 50 \<and> take 6 acc \<noteq> ''TITLE:''
                    then ([UpdateConversation cid TitleGenerationDone], True)
                    else ([], False))
             else ([], titleExtracted st));
          displayContent = (if isFirstTurnInConversation then stripTitle acc else acc)
      in (fst titleStep @
          [UpdateConversationMessages cid
             (StreamChunk displayContent (groundingChunks chunk) (extraMessageId w) (now w))],
          \<lparr> finalModelResponse = acc, titleExtracted = snd titleStep, usageMetadata = usage \<rparr>))"

text \<open>
  The \<open>for await\<close> loop; \<open>i\<close> counts the chunks consumed. A cancellation that arrives while
  chunk \<open>i\<close> is awaited is seen at the top of the next iteration, which breaks; the result
  says whether the loop broke.
\<close>

fun streamLoop :: "bool \<Rightarrow> string \<Rightarrow> World \<Rightarrow> nat \<Rightarrow> Chunk list \<Rightarrow> StreamState \<Rightarrow> Effect list \<times> StreamState \<times> bool" where
  "streamLoop isFirst cid w i [] st = (cancelDuring (DuringChunk i) cid w, st, False)"
| "streamLoop isFirst cid w i (chunk # rest) st =
     (if cancelAt w = Some (DuringChunk i) then (handleCancelStream (Some cid) w, st, True)
      else (case processChunk isFirst cid w chunk st of
              (es, st') \<Rightarrow>
                (case streamLoop isFirst cid w (Suc i) rest st' of
                   (es', r) \<Rightarrow> (es @ es', r))))"

text \<open>Lines 509-516, the pairs of the most recent twenty messages.\<close>

fun pairUp :: "ChatMessage list \<Rightarrow> (ChatMessage \<times> ChatMessage) list" where
  "pairUp (a # b # rest) =
     (if role a = User \<and> role b = Model then [(a, b)] else []) @ pairUp rest"
| "pairUp [a] = []"
| "pairUp [] = []"

definition summaryEffects :: "Conversation \<Rightarrow> Effect list" where
  "summaryEffects finalConversationState =
     (let n = length (messages finalConversationState) in
      if n > 0 \<and> n mod 20 = 0 then
        let convosToSummarize = pairUp (drop (n - 20) (messages finalConversationState))
        in if length convosToSummarize > 0
           then [Call (GenerateConvoSummaries convosToSummarize
                         (case summaries finalConversationState of
                            None \<Rightarrow> 0 | Some ss \<Rightarrow> length ss))]
           else []
      else [])"

text \<open>
  Lines 480-579, after the loop. \<open>finalConversationState\<close> is looked up in the
  \<open>conversations\<close> of the closure. The writer of the code memory (lines 528-535) and the
  continuations of the detached promises are not part of the model.
\<close>

definition afterStream :: "HandlerEnv \<Rightarrow> SendArgs \<Rightarrow> string \<Rightarrow> TurnVars \<Rightarrow> StreamState \<Rightarrow> bool \<Rightarrow> Effect list" where
  "afterStream env args cid v st cancelled =
     (case usageMetadata st of
        Some u \<Rightarrow>
          if \<not> cancelled
          then [UpdateConversationMessages cid
                  (TokensAnnotated u (prompt args)
                     (toolUsed (toolInUseVar v) (isImageAnalysisRequest v)
                        (isFileAnalysisRequest v) (isWebSearchEnabled v)))]
          else []
      | None \<Rightarrow> []) @
     (let finalCleanedResponse = stripTitle (finalModelResponse st) in
      case find (\<lambda>c. convId c = cid) (conversations env) of
        Some finalConversationState \<Rightarrow>
          if \<not> cancelled
          then summaryEffects finalConversationState @
               (if js_trim finalCleanedResponse \<noteq> []
                then [Call (UpdateMemory (prompt args) finalCleanedResponse)] else [])
          else []
      | None \<Rightarrow> [])"

text \<open>Lines 434-579.\<close>

definition streamPhase ::
  "HandlerEnv \<Rightarrow> SendArgs \<Rightarrow> World \<Rightarrow> string \<Rightarrow> bool \<Rightarrow> TurnVars \<Rightarrow> Effect list \<times> unit Step" where
  "streamPhase env args w cid isFirstTurnInConversation v =
     (let openCancelled = (cancelAt w = Some DuringStreamOpen);
          loop = (if openCancelled then ([], initialStreamState, chunks w \<noteq> [])
                  else streamLoop isFirstTurnInConversation cid w 0 (chunks w) initialStreamState);
          es = fst loop;
          st = fst (snd loop);
          broke = snd (snd loop);
          cancelled = openCancelled \<or> isCancelled es
      in if \<not> broke \<and> streamError w \<noteq> None
         then (es, Throw (case streamError w of Some e \<Rightarrow> e | None \<Rightarrow> []))
         else (es @ afterStream env args cid v st cancelled, Continue ()))"

text \<open>
  Lines 208-382, the \<open>try\<close> block up to the model call; a run that gets there continues
  with the variables the call is made with.
\<close>

definition beforeStream :: "HandlerEnv \<Rightarrow> SendArgs \<Rightarrow> World \<Rightarrow> string \<Rightarrow> Effect list \<times> TurnVars Step" where
  "beforeStream env args w cid =
     thenStep (thenStep (thenStep (thenStep (thenStep
       (planPhase env args w cid)
       (markPhase cid))
       (urlPhase args w cid))
       (moleculePhase args w cid))
       (preStreamPhase cid))
       (codePhase env args w cid)"

text \<open>The \<open>try\<close> block, lines 208-579.\<close>

definition tryBlock ::
  "HandlerEnv \<Rightarrow> SendArgs \<Rightarrow> World \<Rightarrow> string \<Rightarrow> bool \<Rightarrow> ChatMessage list \<Rightarrow> Effect list \<times> unit Step" where
  "tryBlock env args w cid isFirstTurnInConversation historyMessages =
     thenStep (thenStep
       (beforeStream env args w cid)
       (streamOpenPhase env args w cid isFirstTurnInConversation historyMessages))
       (streamPhase env args w cid isFirstTurnInConversation)"

text \<open>Lines 580-595.\<close>

definition catchBlock :: "World \<Rightarrow> string \<Rightarrow> Effect list \<Rightarrow> unit Step \<Rightarrow> Effect list" where
  "catchBlock w cid body exit =
     (case exit of
        Throw e \<Rightarrow>
          if isCancelled body then []
          else [LogError e, SetError (Some (friendlyMessage w e)),
                UpdateConversationMessages cid
                  (ErrorShown (friendlyMessage w e) (extraMessageId w) (now w))]
      | _ \<Rightarrow> [])"

text \<open>Lines 596-635.\<close>

definition finallyBlock :: "World \<Rightarrow> string \<Rightarrow> Effect list \<Rightarrow> Effect list" where
  "finallyBlock w cid body =
     (if StartLongToolUseTimer \<in> set body then [ClearLongToolUseTimer] else []) @
     (if \<not> isCancelled body
      then (if cid \<noteq> [] then [UpdateConversationMessages cid AnalysisFlagsCleared] else []) @
           (if cid \<noteq> []
            then [UpdateConversationMessages cid (GenerationTimeStamped (finalElapsedTime w))]
            else [])
      else []) @
     [StopResponseTimer, SetIsLoading False, ClearThinkingIntervals, SetIsSearchingWeb False,
      SetIsLongToolUse False, SetActiveSuggestionNull, SetCancelledRef False]"

text \<open>Lines 184-635, once the conversation of the turn is known.\<close>

definition runTurn ::
  "HandlerEnv \<Rightarrow> SendArgs \<Rightarrow> World \<Rightarrow> string \<Rightarrow> bool \<Rightarrow> ChatMessage list \<Rightarrow> Effect list" where
  "runTurn env args w cid isFirstTurnInConversation historyMessages =
     (let body = tryBlock env args w cid isFirstTurnInConversation historyMessages
      in [SetError None, SetIsLoading True, SetCancelledRef False, StartResponseTimer,
          UpdateConversationMessages cid (appendForTurn env args w)] @
         fst body @ catchBlock w cid (fst body) (snd body) @ finallyBlock w cid (fst body))"

definition newConversation :: "World \<Rightarrow> Conversation" where
  "newConversation w =
     \<lparr> convId = newConversationId w, title = ''New Chat'', messages = [],
       createdAt = now w, isPinned = None, isGeneratingTitle = None, summaries = Some [] \<rparr>"

text \<open>
  The whole handler: every state change, timer operation and service call of one
  invocation, in order.
\<close>

definition handleSendMessage :: "HandlerEnv \<Rightarrow> SendArgs \<Rightarrow> World \<Rightarrow> Effect list" where
  "handleSendMessage env args w =
     (if sendRejected env args then []
      else if \<not> truthyString (activeConversationId env)
      then [SetConversationsPrepend (newConversation w),
            SetActiveConversationId (newConversationId w)] @
           runTurn env args w (newConversationId w) True []
      else
        let currentConversationId =
              (case activeConversationId env of Some c \<Rightarrow> c | None \<Rightarrow> [])
        in (case find (\<lambda>c. convId c = currentConversationId) (conversations env) of
              None \<Rightarrow>
                [LogError (''useChatHandler: Could not find active conversation with ID '' @
                           currentConversationId),
                 SetIsLoading False, StopResponseTimer]
            | Some foundConvo \<Rightarrow>
                runTurn env args w currentConversationId
                  (length (messages foundConvo) = 0) (messages foundConvo)))"

section \<open>Retry (App.tsx, handleRetry)\<close>

text \<open>The index of the last model message, the loop of lines 309-314.\<close>

fun lastModelMessageIndex :: "ChatMessage list \<Rightarrow> nat option" where
  "lastModelMessageIndex [] = None"
| "lastModelMessageIndex (m # ms) =
     (case lastModelMessageIndex ms of
        Some i \<Rightarrow> Some (Suc i)
      | None \<Rightarrow> if role m = Model then Some 0 else None)"

text \<open>
  \<open>handleRetry\<close> on the active conversation; \<open>handleSendMessageWrapper\<close> with
  \<open>isRetry = true\<close> goes straight to \<open>executeSendMessage\<close>, which calls
  \<open>handleSendMessage\<close> with no override model.
\<close>

definition resendArgs :: "ChatMessage \<Rightarrow> SendArgs" where
  "resendArgs lastUserMessage =
     \<lparr> prompt = content lastUserMessage, argImages = images lastUserMessage,
       argFile = file' lastUserMessage, argUrl = url lastUserMessage,
       overrideModel = None, isRetry = True \<rparr>"

definition handleRetry :: "HandlerEnv \<Rightarrow> World \<Rightarrow> Effect list" where
  "handleRetry env w =
     (case find (\<lambda>c. Some (convId c) = activeConversationId env) (conversations env) of
        None \<Rightarrow> []
      | Some activeConversation \<Rightarrow>
          (case lastModelMessageIndex (messages activeConversation) of
             None \<Rightarrow> []
           | Some idx \<Rightarrow>
               if idx \<ge> 1 \<and> role (messages activeConversation ! (idx - 1)) = User then
                 let lastUserMessage = messages activeConversation ! (idx - 1)
                 in [UpdateConversationMessages (convId activeConversation) (SliceTo idx)] @
                    handleSendMessage env (resendArgs lastUserMessage) w
               else []))"

section \<open>The message list along a run\<close>

fun messageUpdates :: "string \<Rightarrow> Effect list \<Rightarrow> MsgUpdate list" where
  "messageUpdates cid [] = []"
| "messageUpdates cid (UpdateConversationMessages c u # es) =
     (if c = cid then u # messageUpdates cid es else messageUpdates cid es)"
| "messageUpdates cid (e # es) = messageUpdates cid es"

text \<open>The list before the first update and after each one.\<close>

fun messageTrace :: "MsgUpdate list \<Rightarrow> ChatMessage list \<Rightarrow> ChatMessage list list" where
  "messageTrace [] ms = [ms]"
| "messageTrace (u # us) ms = ms # messageTrace us (applyUpdate u ms)"

text \<open>The updaters a run issues after its first one: none of them appends a user message.\<close>

fun laterUpdate :: "MsgUpdate \<Rightarrow> bool" where
  "laterUpdate (AppendUserAndPlanning a b) = False"
| "laterUpdate (AppendPlanning a) = False"
| "laterUpdate (SliceTo n) = False"
| "laterUpdate u = True"

text \<open>The four transient flags of a message, as JavaScript truth values.\<close>

definition planningOrTool :: "ChatMessage \<Rightarrow> bool" where
  "planningOrTool m \<longleftrightarrow> truthy (isPlanning m) \<or> toolInUse m \<noteq> None"

definition analyzing :: "ChatMessage \<Rightarrow> bool" where
  "analyzing m \<longleftrightarrow> truthy (isAnalyzingImage m) \<or> truthy (isAnalyzingFile m)"

definition carriesTransientFlag :: "ChatMessage \<Rightarrow> bool" where
  "carriesTransientFlag m \<longleftrightarrow> planningOrTool m \<or> analyzing m"

text \<open>
  The shape of the message list while a turn is in flight: it ends with the model message
  of the turn, identifiers are distinct, only that last message may be planning or using a
  tool, and only the message before it may be under analysis.
\<close>

definition inFlight :: "ChatMessage list \<Rightarrow> bool" where
  "inFlight ms \<longleftrightarrow>
     ms \<noteq> [] \<and> role (last ms) = Model \<and> \<not> analyzing (last ms) \<and>
     distinct (map id' ms) \<and>
     (\<forall>m \<in> set (butlast ms). \<not> planningOrTool m) \<and>
     (\<forall>m \<in> set (butlast (butlast ms)). \<not> analyzing m)"

text \<open>The identifiers of the user messages of a list, in order.\<close>

definition userIds :: "ChatMessage list \<Rightarrow> string list" where
  "userIds ms = map id' (filter (\<lambda>m. role m = User) ms)"

text \<open>The message list after all the updates of a run.\<close>

definition messagesAfter :: "string \<Rightarrow> Effect list \<Rightarrow> ChatMessage list \<Rightarrow> ChatMessage list" where
  "messagesAfter cid es ms = fold applyUpdate (messageUpdates cid es) ms"

text \<open>
  The conversation a run works on (lines 160-182), with \<open>isFirstTurnInConversation\<close> and
  the messages of \<open>conversationForThisTurn\<close>; \<open>None\<close> when the active conversation is not
  among the captured ones.
\<close>

definition turnOf :: "HandlerEnv \<Rightarrow> World \<Rightarrow> (string \<times> bool \<times> ChatMessage list) option" where
  "turnOf env w =
     (if \<not> truthyString (activeConversationId env) then Some (newConversationId w, True, [])
      else
        let currentConversationId =
              (case activeConversationId env of Some c \<Rightarrow> c | None \<Rightarrow> [])
        in (case find (\<lambda>c. convId c = currentConversationId) (conversations env) of
              None \<Rightarrow> None
            | Some foundConvo \<Rightarrow>
                Some (currentConversationId, length (messages foundConvo) = 0,
                      messages foundConvo)))"

text \<open>
  \<open>finalModelResponse\<close> once the first \<open>k\<close> chunks of the stream have been added to it,
  and the \<open>displayContent\<close> written for an accumulated text.
\<close>

definition accumulated :: "Chunk list \<Rightarrow> nat \<Rightarrow> string" where
  "accumulated cs k = concat (map chunkText (take k cs))"

definition displayed :: "bool \<Rightarrow> string \<Rightarrow> string" where
  "displayed isFirstTurnInConversation a = (if isFirstTurnInConversation then stripTitle a else a)"

text \<open>
  The title extraction of a first turn, stated on the accumulated texts alone. The extraction
  is over after an accumulated text that matched the \<open>TITLE:\<close> prefix and contains a line
  feed, or that did not match, is longer than 50 characters and does not start with
  \<open>TITLE:\<close>. As long as it is not over, an accumulated text that matches commits its
  title. \<open>titleStep cs k\<close> is what chunk \<open>k\<close> (counted from 0) does to the conversation,
  \<open>chunkEffects\<close> all the effects of that chunk.
\<close>

definition extractionOver :: "string \<Rightarrow> bool" where
  "extractionOver a \<longleftrightarrow>
     (case titleMatch a of
        Some g \<Rightarrow> CHR 0x0A \<in> set a
      | None \<Rightarrow> length a > 50 \<and> take 6 a \<noteq> ''TITLE:'')"

definition titleStep :: "Chunk list \<Rightarrow> nat \<Rightarrow> ConvUpdate list" where
  "titleStep cs k =
     (if list_ex (\<lambda>j. extractionOver (accumulated cs j)) [1..<Suc k] then []
      else (case titleMatch (accumulated cs (Suc k)) of
              Some g \<Rightarrow> [SetTitle (js_trim g)]
            | None \<Rightarrow>
                if length (accumulated cs (Suc k)) > 50 \<and>
                   take 6 (accumulated cs (Suc k)) \<noteq> ''TITLE:''
                then [TitleGenerationDone] else []))"

definition chunkEffects :: "string \<Rightarrow> World \<Rightarrow> nat \<Rightarrow> Effect list" where
  "chunkEffects cid w k =
     map (UpdateConversation cid) (titleStep (chunks w) k) @
     [UpdateConversationMessages cid
        (StreamChunk (stripTitle (accumulated (chunks w) (Suc k)))
           (groundingChunks (chunks w ! k)) (extraMessageId w) (now w))]"


definition stripped :: "ChatMessage \<Rightarrow> bool" where
  "stripped m \<longleftrightarrow>
     isAnalyzingImage m = None \<and> isAnalyzingFile m = None \<and> isPlanning m = None \<and>
     toolInUse m = None \<and> isLongToolUse m = None \<and> thoughts m = None \<and> searchPlan m = None"






section \<open>Example inputs\<close>

definition plainJson :: PlannerJson where
  "plainJson =
     \<lparr> jsonNeedsWebSearch = False, jsonIsUrlReadRequest = False, jsonIsCreatorRequest = False,
       jsonIsCapabilitiesRequest = False, jsonNeedsThinking = False,
       jsonNeedsCodeContext = False, jsonIsMoleculeRequest = False, jsonMoleculeName = None,
       jsonThoughts = None, jsonSearchPlan = None \<rparr>"

definition exampleWorld :: World where
  "exampleWorld =
     \<lparr> newConversationId = ''conv-new'', now = ''2025-01-01T00:00:00.000Z'',
       userMessageId' = ''msg-user'', planningMessageId = ''msg-model'',
       extraMessageId = ''msg-extra'', plannerJson = Some plainJson,
       urlFetchResult = Inr ''page text'', moleculeResult = Inl ''not found'',
       relevantCode = Inr [], streamOpenError = None,
       chunks = [\<lparr> chunkText = ''Hello'', chunkUsage = None, groundingChunks = None \<rparr>],
       streamError = None, friendlyMessage = (\<lambda>e. e), cancelAt = None,
       finalElapsedTime = 1200 \<rparr>"

definition exampleEnv :: HandlerEnv where
  "exampleEnv =
     \<lparr> apiKey = Some ''key'', conversations = [], activeConversationId = None,
       isLoading = False, selectedTool = Smart, selectedChatModel = Gemini25Flash,
       codeMemory = [] \<rparr>"

definition exampleArgs :: SendArgs where
  "exampleArgs =
     \<lparr> prompt = ''Hi'', argImages = None, argFile = None, argUrl = None,
       overrideModel = None, isRetry = False \<rparr>"

text \<open>A settled conversation of \<open>n\<close> exchanges, each a user message and the model's answer.\<close>

primrec exchanges :: "nat \<Rightarrow> ChatMessage list" where
  "exchanges 0 = []"
| "exchanges (Suc n) =
     exchanges n @
     [mkMessage (''user-'' @ replicate n (CHR ''i'')) User ''question'',
      mkMessage (''model-'' @ replicate n (CHR ''i'')) Model ''answer'']"

definition exampleConversation :: "ChatMessage list \<Rightarrow> Conversation" where
  "exampleConversation ms =
     \<lparr> convId = ''conv-1'', title = ''Chat'', messages = ms,
       createdAt = ''2025-01-01T00:00:00.000Z'', isPinned = None, isGeneratingTitle = None,
       summaries = Some [] \<rparr>"

definition exampleEnvWith :: "ChatMessage list \<Rightarrow> HandlerEnv" where
  "exampleEnvWith ms =
     exampleEnv\<lparr> activeConversationId := Some ''conv-1'',
                 conversations := [exampleConversation ms] \<rparr>"

text \<open>The requests for summaries among the effects of a run.\<close>

fun summaryCalls :: "Effect list \<Rightarrow> NetworkCall list" where
  "summaryCalls [] = []"
| "summaryCalls (Call (GenerateConvoSummaries ps n) # es) =
     GenerateConvoSummaries ps n # summaryCalls es"
| "summaryCalls (e # es) = summaryCalls es"

section \<open>Properties of the history builder\<close>

lemma messageParts_length:
  "length (messageParts m) =
     (if content m = [] then 0 else 1) +
     (case images m of None \<Rightarrow> 0 | Some imgs \<Rightarrow> length imgs) +
     (case file' m of None \<Rightarrow> 0 | Some f \<Rightarrow> 1)"
  by (simp add: messageParts_def split: option.splits)

lemma transformMessagesToHistory_fused:
  "transformMessagesToHistory xs =
     map messageToContent
       (filter (\<lambda>m. \<not> isBlankModelMessage m \<and> messageParts m \<noteq> []) xs)"
  by (induction xs) (simp_all add: transformMessagesToHistory_def messageToContent_def)

text \<open>
  C10. For every list of messages, no entry of the history has zero parts. A model message
  whose content is empty or only whitespace and whose \<open>images\<close> property is absent is
  dropped: removing it from the input does not change the history. The history is, in
  order, the entry of each message that is not such a model message and has at least one
  part; the entry of a message keeps its role and has one text part if the content is not
  empty, one part for each image and one part for the file.
\<close>

theorem history_entries_have_parts:
  "(\<forall>c \<in> set (transformMessagesToHistory msgs). parts c \<noteq> []) \<and>
   (\<forall>m \<in> set msgs. role m = Model \<and> js_trim (content m) = [] \<and> images m = None \<longrightarrow>
      transformMessagesToHistory msgs = transformMessagesToHistory (removeAll m msgs)) \<and>
   transformMessagesToHistory msgs =
     map messageToContent
       (filter (\<lambda>m. \<not> (role m = Model \<and> js_trim (content m) = [] \<and> images m = None) \<and>
                     messageParts m \<noteq> []) msgs) \<and>
   (\<forall>m \<in> set msgs.
      contentRole (messageToContent m) = role m \<and>
      length (parts (messageToContent m)) =
        (if content m = [] then 0 else 1) +
        (case images m of None \<Rightarrow> 0 | Some imgs \<Rightarrow> length imgs) +
        (case file' m of None \<Rightarrow> 0 | Some f \<Rightarrow> 1))"
proof -
  have nonempty: "\<forall>c \<in> set (transformMessagesToHistory msgs). parts c \<noteq> []"
    by (simp add: transformMessagesToHistory_def)
  have dropped: "transformMessagesToHistory msgs = transformMessagesToHistory (removeAll m msgs)"
    if "role m = Model \<and> js_trim (content m) = [] \<and> images m = None" for m
  proof -
    from that have "isBlankModelMessage m" by (simp add: isBlankModelMessage_def)
    then show ?thesis
      unfolding transformMessagesToHistory_fused by (induction msgs) auto
  qed
  have fused: "transformMessagesToHistory msgs =
     map messageToContent
       (filter (\<lambda>m. \<not> (role m = Model \<and> js_trim (content m) = [] \<and> images m = None) \<and>
                     messageParts m \<noteq> []) msgs)"
    by (simp add: transformMessagesToHistory_fused isBlankModelMessage_def)
  have entry: "contentRole (messageToContent m) = role m \<and>
      length (parts (messageToContent m)) =
        (if content m = [] then 0 else 1) +
        (case images m of None \<Rightarrow> 0 | Some imgs \<Rightarrow> length imgs) +
        (case file' m of None \<Rightarrow> 0 | Some f \<Rightarrow> 1)" for m
    by (simp add: messageToContent_def messageParts_length)
  from nonempty dropped fused entry show ?thesis by blast
qed

theorem history_entries_have_parts_witness:
  "transformMessagesToHistory
     [mkMessage ''a'' Model '' '', mkMessage ''b'' User ''hi'', mkMessage ''c'' User []] =
     [\<lparr> contentRole = User, parts = [Text ''hi''] \<rparr>] \<and>
   transformMessagesToHistory
     [mkMessage ''a'' Model '' '', mkMessage ''b'' User ''hi'', mkMessage ''c'' User []] =
   transformMessagesToHistory
     (removeAll (mkMessage ''a'' Model '' '')
        [mkMessage ''a'' Model '' '', mkMessage ''b'' User ''hi'', mkMessage ''c'' User []]) \<and>
   parts \<lparr> contentRole = User, parts = [Text ''hi''] \<rparr> \<noteq> [] \<and>
   length (parts (messageToContent (mkMessage ''b'' User ''hi''))) = 1"
proof -
  let ?msgs = "[mkMessage ''a'' Model '' '', mkMessage ''b'' User ''hi'', mkMessage ''c'' User []]"
  have blank: "role (mkMessage ''a'' Model '' '') = Model \<and>
      js_trim (content (mkMessage ''a'' Model '' '')) = [] \<and>
      images (mkMessage ''a'' Model '' '') = None"
    by (simp add: mkMessage_def js_trim_def js_whitespace_def)
  have mem: "mkMessage ''a'' Model '' '' \<in> set ?msgs" "mkMessage ''b'' User ''hi'' \<in> set ?msgs"
    by simp_all
  have val: "transformMessagesToHistory ?msgs = [\<lparr> contentRole = User, parts = [Text ''hi''] \<rparr>]"
    by (simp add: transformMessagesToHistory_def messageToContent_def messageParts_def
        isBlankModelMessage_def mkMessage_def js_trim_def js_whitespace_def)
  note inst = history_entries_have_parts [of ?msgs]
  from inst mem(1) blank have drop: "transformMessagesToHistory ?msgs =
      transformMessagesToHistory (removeAll (mkMessage ''a'' Model '' '') ?msgs)"
    by blast
  from inst val have ne: "parts \<lparr> contentRole = User, parts = [Text ''hi''] \<rparr> \<noteq> []"
    by simp
  from inst mem(2) have len: "length (parts (messageToContent (mkMessage ''b'' User ''hi''))) =
      (if content (mkMessage ''b'' User ''hi'') = [] then 0 else 1) +
      (case images (mkMessage ''b'' User ''hi'') of None \<Rightarrow> 0 | Some imgs \<Rightarrow> length imgs) +
      (case file' (mkMessage ''b'' User ''hi'') of None \<Rightarrow> 0 | Some f \<Rightarrow> 1)"
    by blast
  then have "length (parts (messageToContent (mkMessage ''b'' User ''hi''))) = 1"
    by (simp add: mkMessage_def)
  with val drop ne show ?thesis by simp
qed

section \<open>Properties of cancellation\<close>

lemma stripTransient_fields:
  "isAnalyzingImage (stripTransient m) = None \<and> isAnalyzingFile (stripTransient m) = None \<and>
   isPlanning (stripTransient m) = None \<and> toolInUse (stripTransient m) = None \<and>
   isLongToolUse (stripTransient m) = None \<and> thoughts (stripTransient m) = None \<and>
   searchPlan (stripTransient m) = None \<and> role (stripTransient m) = role m \<and>
   content (stripTransient m) = content m \<and> id' (stripTransient m) = id' m"
  by (simp add: stripTransient_def)

lemma cancelMessages_last_model:
  assumes "prev \<noteq> []" and "role (last prev) = Model"
  shows "cancelMessages newId t prev =
     butlast (map stripTransient prev) @
     [(stripTransient (last prev))\<lparr> content :=
         (if js_trim (content (last prev)) \<noteq> []
          then js_trim (content (last prev)) @ ''\<newline>\<newline>'' @ stopNotice
          else stopNotice) \<rparr>]"
  using assms
  by (simp add: cancelMessages_def Let_def last_map stripTransient_fields)

lemma cancelMessages_otherwise:
  assumes "prev = [] \<or> role (last prev) \<noteq> Model"
  shows "cancelMessages newId t prev =
     map stripTransient prev @ [(mkMessage newId Model stopNotice)\<lparr> timestamp := Some t \<rparr>]"
  using assms
  by (auto simp add: cancelMessages_def Let_def last_map stripTransient_fields)


section \<open>Properties of the entry guard\<close>

text \<open>
  C3. If a turn is already in flight (\<open>isLoading\<close>), or the prompt is empty or only
  whitespace and there is no image, file or URL argument, or no API key is configured, an
  invocation of \<open>handleSendMessage\<close> has no effect at all: no message is appended, no timer
  started and no service called.
\<close>

theorem send_guard_no_effect:
  assumes "isLoading env \<or>
           (js_trim (prompt args) = [] \<and> argImages args = None \<and> argFile args = None \<and>
            \<not> truthyString (argUrl args)) \<or>
           \<not> truthyString (apiKey env)"
  shows "handleSendMessage env args w = []"
  using assms by (auto simp add: handleSendMessage_def sendRejected_def)

theorem send_guard_no_effect_witness:
  "isLoading (exampleEnv\<lparr> isLoading := True \<rparr>) \<and>
   handleSendMessage (exampleEnv\<lparr> isLoading := True \<rparr>) exampleArgs exampleWorld = []"
proof -
  have "isLoading (exampleEnv\<lparr> isLoading := True \<rparr>)" by simp
  then show ?thesis using send_guard_no_effect [of "exampleEnv\<lparr> isLoading := True \<rparr>" exampleArgs exampleWorld]
    by simp
qed

section \<open>The effects of a run, phase by phase\<close>

lemmas phase_defs = planPhase_def markPhase_def urlPhase_def moleculePhase_def
  preStreamPhase_def codePhase_def streamOpenPhase_def streamPhase_def afterStream_def
  handleToolError_def cancelDuring_def handleCancelStream_def isCancelled_def thenStep_def

lemmas turn_defs = handleSendMessage_def runTurn_def tryBlock_def beforeStream_def
  catchBlock_def finallyBlock_def appendForTurn_def sendRejected_def truthyString_def
  routeTurn_def initialVars_def planResponse_def hasImages_def streamCall_def
  userMessageParts_def processChunk_def initialStreamState_def summaryEffects_def
  modelToUse_def moleculeNameOf_def

lemma thenStep_Continue:
  "snd (thenStep m f) = Continue b \<longleftrightarrow> (\<exists>a. snd m = Continue a \<and> snd (f a) = Continue b)"
  by (cases m; cases "snd m") (auto simp add: thenStep_def split: prod.splits Step.splits)

lemma planPhase_Continue:
  "snd (planPhase env args w cid) = Continue v \<Longrightarrow>
   v = routeTurn (selectedTool env) (planResponse (plannerJson w)) (prompt args)
         (argImages args) (argFile args)"
  by (simp add: planPhase_def Let_def split: if_splits)

lemma markPhase_Continue: "snd (markPhase cid v) = Continue v' \<longleftrightarrow> v' = v"
  by (auto simp add: markPhase_def)

lemma preStreamPhase_Continue: "snd (preStreamPhase cid v) = Continue v' \<longleftrightarrow> v' = v"
  by (auto simp add: preStreamPhase_def)

lemma codePhase_Continue: "snd (codePhase env args w cid v) = Continue v' \<Longrightarrow> v' = v"
  by (simp add: codePhase_def Let_def split: if_splits sum.splits)

lemma urlPhase_Continue:
  "snd (urlPhase args w cid v) = Continue v' \<Longrightarrow>
   (if isUrlReadRequest (plan v)
    then \<exists>u c. argUrl args = Some u \<and> u \<noteq> [] \<and> urlFetchResult w = Inr c \<and>
           v' = v\<lparr> toolInUseVar := Some Url, finalPromptForModel := urlPrompt u c (prompt args) \<rparr>
    else v' = v)"
  by (auto simp add: urlPhase_def Let_def truthyString_def split: if_splits sum.splits option.splits)

lemma moleculePhase_Continue:
  "snd (moleculePhase args w cid v) = Continue v' \<Longrightarrow>
   (if planIsMoleculeRequest (plan v)
    then v' = v\<lparr> finalPromptForModel := moleculePrompt (moleculeNameOf args v),
                 isWebSearchEnabled := False, isThinkingEnabled := False \<rparr>
    else v' = v)"
  by (auto simp add: moleculePhase_def Let_def split: if_splits sum.splits)

lemma beforeStream_Continue:
  assumes "snd (beforeStream env args w cid) = Continue v"
  shows "\<exists>u. snd (urlPhase args w cid
                  (routeTurn (selectedTool env) (planResponse (plannerJson w)) (prompt args)
                     (argImages args) (argFile args))) = Continue u \<and>
             snd (moleculePhase args w cid u) = Continue v"
  using assms
  by (auto simp add: beforeStream_def thenStep_Continue markPhase_Continue
      preStreamPhase_Continue dest!: planPhase_Continue codePhase_Continue)

lemma routeTurn_thinking:
  assumes "r = routeTurn tool (planResponse json) p imgs f"
    and "isUrlReadRequest (plan r) \<or> isWebSearchEnabled r \<or> hasImages imgs"
  shows "\<not> isThinkingEnabled r"
  using assms
  by (cases tool; cases json)
     (auto simp add: routeTurn_def initialVars_def planResponse_def Let_def split: if_splits)


lemma set_thenStep:
  "set (fst (thenStep m f)) =
     set (fst m) \<union> (case snd m of Continue a \<Rightarrow> set (fst (f a)) | _ \<Rightarrow> {})"
  by (cases m; cases "snd m") (auto simp add: thenStep_def split: prod.splits)

lemma in_thenStep:
  "e \<in> set (fst (thenStep m f)) \<longleftrightarrow>
     e \<in> set (fst m) \<or> (\<exists>a. snd m = Continue a \<and> e \<in> set (fst (f a)))"
  by (auto simp add: set_thenStep split: Step.splits)

lemma handleCancelStream_set:
  "e \<in> set (handleCancelStream (Some cid) w) \<Longrightarrow>
     e \<in> {SetCancelledRef True, ClearThinkingIntervals, StopResponseTimer, SetIsLoading False,
          SetIsSearchingWeb False, SetIsLongToolUse False,
          UpdateConversationMessages cid (CancelUpdate (extraMessageId w) (now w))}"
  by (auto simp add: handleCancelStream_def split: if_splits)

lemma cancelDuring_set:
  "e \<in> set (cancelDuring p cid w) \<Longrightarrow>
     e \<in> {SetCancelledRef True, ClearThinkingIntervals, StopResponseTimer, SetIsLoading False,
          SetIsSearchingWeb False, SetIsLongToolUse False,
          UpdateConversationMessages cid (CancelUpdate (extraMessageId w) (now w))}"
  by (auto simp add: cancelDuring_def dest: handleCancelStream_set split: if_splits)

lemma planPhase_set:
  "e \<in> set (fst (planPhase env args w cid)) \<Longrightarrow>
     (\<exists>c. e = Call c \<and> c = PlanResponse (prompt args) (argImages args) (argFile args) (modelToUse env args)) \<or>
     e \<in> set (cancelDuring DuringPlan cid w)"
  by (auto simp add: planPhase_def Let_def split: if_splits)

lemma in_beforeStream_timer:
  assumes "StartThinkingTimer \<in> set (fst (beforeStream env args w cid))"
  shows "\<exists>u m. snd (urlPhase args w cid
                   (routeTurn (selectedTool env) (planResponse (plannerJson w)) (prompt args)
                      (argImages args) (argFile args))) = Continue u \<and>
               snd (moleculePhase args w cid u) = Continue m \<and> isThinkingEnabled m"
  using assms
  apply (simp add: beforeStream_def in_thenStep thenStep_Continue markPhase_Continue preStreamPhase_Continue)
  apply (elim disjE exE conjE)
  subgoal by (auto dest!: planPhase_set cancelDuring_set)
  subgoal by (auto simp add: markPhase_def split: if_splits)
  subgoal by (auto simp add: urlPhase_def handleToolError_def Let_def dest!: cancelDuring_set split: if_splits sum.splits)
  subgoal by (auto simp add: moleculePhase_def Let_def dest!: cancelDuring_set split: if_splits sum.splits)
  subgoal by (auto simp add: preStreamPhase_def dest!: planPhase_Continue split: if_splits)
  subgoal by (auto simp add: codePhase_def Let_def dest!: cancelDuring_set split: if_splits sum.splits)
  done


lemma processChunk_set:
  "e \<in> set (fst (processChunk f cid w c st)) \<Longrightarrow>
     (\<exists>d g. e = UpdateConversationMessages cid (StreamChunk d g (extraMessageId w) (now w))) \<or>
     (\<exists>c. e = UpdateConversation cid c)"
  by (auto simp add: processChunk_def Let_def split: if_splits option.splits)

lemma streamLoop_set:
  "e \<in> set (fst (streamLoop f cid w i cs st)) \<Longrightarrow>
     (\<exists>d g. e = UpdateConversationMessages cid (StreamChunk d g (extraMessageId w) (now w))) \<or>
     (\<exists>c. e = UpdateConversation cid c) \<or>
     e \<in> {SetCancelledRef True, ClearThinkingIntervals, StopResponseTimer, SetIsLoading False,
          SetIsSearchingWeb False, SetIsLongToolUse False,
          UpdateConversationMessages cid (CancelUpdate (extraMessageId w) (now w))}"
proof (induction cs arbitrary: i st)
  case Nil
  then show ?case by (auto dest!: cancelDuring_set)
next
  case (Cons c cs)
  show ?case
  proof (cases "cancelAt w = Some (DuringChunk i)")
    case True
    with Cons.prems show ?thesis by (auto dest!: handleCancelStream_set)
  next
    case False
    obtain es st' where pc: "processChunk f cid w c st = (es, st')"
      by (cases "processChunk f cid w c st")
    obtain es' r where sl: "streamLoop f cid w (Suc i) cs st' = (es', r)"
      by (cases "streamLoop f cid w (Suc i) cs st'")
    from Cons.prems False pc sl have "e \<in> set es \<or> e \<in> set es'" by auto
    then show ?thesis
    proof
      assume "e \<in> set es"
      with pc have "e \<in> set (fst (processChunk f cid w c st))" by simp
      from processChunk_set [OF this] show ?thesis by blast
    next
      assume "e \<in> set es'"
      with sl have "e \<in> set (fst (streamLoop f cid w (Suc i) cs st'))" by simp
      from Cons.IH [OF this] show ?thesis .
    qed
  qed
qed

lemma summaryEffects_set:
  "e \<in> set (summaryEffects c) \<Longrightarrow> \<exists>ps n. e = Call (GenerateConvoSummaries ps n)"
  by (auto simp add: summaryEffects_def Let_def split: if_splits)

lemma afterStream_set:
  "e \<in> set (afterStream env args cid v st cancelled) \<Longrightarrow>
     (\<exists>u p b. e = UpdateConversationMessages cid (TokensAnnotated u p b)) \<or>
     (\<exists>ps n. e = Call (GenerateConvoSummaries ps n)) \<or>
     (\<exists>p r. e = Call (UpdateMemory p r))"
  by (auto simp add: afterStream_def Let_def dest!: summaryEffects_set split: if_splits option.splits)

lemma streamPhase_set:
  "e \<in> set (fst (streamPhase env args w cid f v)) \<Longrightarrow>
     (\<exists>u. e = UpdateConversationMessages cid u \<and>
        ((\<exists>d g. u = StreamChunk d g (extraMessageId w) (now w)) \<or>
         u = CancelUpdate (extraMessageId w) (now w) \<or> (\<exists>x p b. u = TokensAnnotated x p b))) \<or>
     (\<exists>c. e = UpdateConversation cid c) \<or>
     (\<exists>ps n. e = Call (GenerateConvoSummaries ps n)) \<or>
     (\<exists>p r. e = Call (UpdateMemory p r)) \<or>
     e \<in> {SetCancelledRef True, ClearThinkingIntervals, StopResponseTimer, SetIsLoading False,
          SetIsSearchingWeb False, SetIsLongToolUse False}"
  apply (simp add: streamPhase_def Let_def split: if_splits)
  apply (auto dest!: streamLoop_set afterStream_set)
  done

lemma streamOpenPhase_set:
  "e \<in> set (fst (streamOpenPhase env args w cid f h v)) \<Longrightarrow>
     e = Call (streamCall env args f h v) \<or>
     e \<in> set (cancelDuring DuringStreamOpen cid w) \<or>
     e \<in> {ClearLongToolUseTimer, SetIsLongToolUse False, ClearThinkingIntervals,
          SetIsSearchingWeb False, UpdateConversationMessages cid ImageAnalysisDone,
          UpdateConversationMessages cid FileAnalysisDone}"
  by (auto simp add: streamOpenPhase_def Let_def split: if_splits option.splits)

lemma in_tryBlock:
  "e \<in> set (fst (tryBlock env args w cid f h)) \<Longrightarrow>
     e \<in> set (fst (beforeStream env args w cid)) \<or>
     (\<exists>v. snd (beforeStream env args w cid) = Continue v \<and>
        (e \<in> set (fst (streamOpenPhase env args w cid f h v)) \<or>
         e \<in> set (fst (streamPhase env args w cid f v))))"
  apply (simp add: tryBlock_def in_thenStep thenStep_Continue)
  apply (elim disjE exE conjE)
    apply simp
   apply blast
  apply (auto simp add: streamOpenPhase_def Let_def split: if_splits option.splits)
  done

lemma in_handleSendMessage:
  "e \<in> set (handleSendMessage env args w) \<Longrightarrow>
     e = SetConversationsPrepend (newConversation w) \<or>
     e = SetActiveConversationId (newConversationId w) \<or>
     (\<exists>x. e = LogError x) \<or> e = SetIsLoading False \<or> e = StopResponseTimer \<or>
     (\<exists>cid f h. e \<in> set (runTurn env args w cid f h))"
  by (auto simp add: handleSendMessage_def Let_def split: if_splits option.splits)

lemma in_runTurn:
  "e \<in> set (runTurn env args w cid f h) \<Longrightarrow>
     e \<in> {SetError None, SetIsLoading True, SetCancelledRef False, StartResponseTimer,
          UpdateConversationMessages cid (appendForTurn env args w)} \<or>
     e \<in> set (fst (tryBlock env args w cid f h)) \<or>
     (\<exists>x. e = LogError x) \<or> (\<exists>x. e = SetError x) \<or>
     (\<exists>x. e = UpdateConversationMessages cid
              (ErrorShown x (extraMessageId w) (now w))) \<or>
     e \<in> {ClearLongToolUseTimer, UpdateConversationMessages cid AnalysisFlagsCleared,
          UpdateConversationMessages cid (GenerationTimeStamped (finalElapsedTime w)),
          StopResponseTimer, SetIsLoading False, ClearThinkingIntervals,
          SetIsSearchingWeb False, SetIsLongToolUse False, SetActiveSuggestionNull}"
  by (auto simp add: runTurn_def Let_def catchBlock_def finallyBlock_def
      split: if_splits Step.splits)


lemma beforeStream_thinking_off:
  assumes reach: "snd (urlPhase args w cid r) = Continue u"
      "snd (moleculePhase args w cid u) = Continue m"
    and r: "r = routeTurn tool (planResponse json) p imgs fl"
    and flags: "isUrlReadRequest (plan r) \<or> planIsMoleculeRequest (plan r) \<or>
                isWebSearchEnabled r \<or> hasImages imgs"
  shows "\<not> isThinkingEnabled m"
proof (cases "planIsMoleculeRequest (plan r)")
  case True
  from urlPhase_Continue [OF reach(1)] have "plan u = plan r"
    by (auto split: if_splits)
  with True moleculePhase_Continue [OF reach(2)] show ?thesis by simp
next
  case False
  with flags have "isUrlReadRequest (plan r) \<or> isWebSearchEnabled r \<or> hasImages imgs" by simp
  from routeTurn_thinking [OF r this] have "\<not> isThinkingEnabled r" .
  moreover from urlPhase_Continue [OF reach(1)]
  have "plan u = plan r \<and> isThinkingEnabled u = isThinkingEnabled r"
    by (auto split: if_splits)
  moreover from moleculePhase_Continue [OF reach(2)]
  have "planIsMoleculeRequest (plan u) \<or> isThinkingEnabled m = isThinkingEnabled u"
    by (auto split: if_splits)
  ultimately show ?thesis using False by auto
qed

lemma no_thinking_call_beforeStream:
  "Call (SendMessageStream mdl b f' h' ps) \<notin> set (fst (beforeStream env args w cid))"
proof
  assume "Call (SendMessageStream mdl b f' h' ps) \<in> set (fst (beforeStream env args w cid))"
  then show False
    apply (simp add: beforeStream_def in_thenStep)
    apply (elim disjE exE conjE)
    subgoal by (auto dest!: planPhase_set cancelDuring_set)
    subgoal by (auto simp add: markPhase_def split: if_splits)
    subgoal by (auto simp add: urlPhase_def handleToolError_def Let_def dest!: cancelDuring_set split: if_splits sum.splits)
    subgoal by (auto simp add: moleculePhase_def Let_def dest!: cancelDuring_set split: if_splits sum.splits)
    subgoal by (auto simp add: preStreamPhase_def split: if_splits)
    subgoal by (auto simp add: codePhase_def Let_def dest!: cancelDuring_set split: if_splits sum.splits)
    done
qed

lemma thinking_call_streamOpen:
  assumes "Call (SendMessageStream mdl True f' h' ps) \<in> set (fst (streamOpenPhase env args w cid f h v))"
  shows "isThinkingEnabled v"
  using streamOpenPhase_set [OF assms]
  by (auto simp add: streamCall_def dest!: cancelDuring_set split: if_splits)

lemma no_call_in_streamPhase:
  "Call (SendMessageStream mdl b f' h' ps) \<notin> set (fst (streamPhase env args w cid f v))"
proof
  assume "Call (SendMessageStream mdl b f' h' ps) \<in> set (fst (streamPhase env args w cid f v))"
  from streamPhase_set [OF this] show False by auto
qed


lemma thinking_off_at_model_call:
  assumes reach: "snd (beforeStream env args w cid) = Continue v"
    and flags: "isUrlReadRequest (plan (routeTurn (selectedTool env) (planResponse (plannerJson w))
                (prompt args) (argImages args) (argFile args))) \<or>
           planIsMoleculeRequest (plan (routeTurn (selectedTool env) (planResponse (plannerJson w))
                (prompt args) (argImages args) (argFile args))) \<or>
           isWebSearchEnabled (routeTurn (selectedTool env) (planResponse (plannerJson w))
                (prompt args) (argImages args) (argFile args)) \<or>
           hasImages (argImages args)"
  shows "\<not> isThinkingEnabled v"
proof -
  from beforeStream_Continue [OF reach] obtain u where
    u: "snd (urlPhase args w cid (routeTurn (selectedTool env) (planResponse (plannerJson w))
                (prompt args) (argImages args) (argFile args))) = Continue u"
    and m: "snd (moleculePhase args w cid u) = Continue v"
    by (elim exE conjE)
  show ?thesis
    by (rule beforeStream_thinking_off [OF u m refl flags])
qed


lemma no_timer_in_streamOpen:
  "StartThinkingTimer \<notin> set (fst (streamOpenPhase env args w cid f h v))"
proof
  assume "StartThinkingTimer \<in> set (fst (streamOpenPhase env args w cid f h v))"
  from streamOpenPhase_set [OF this] show False
    by (auto simp add: streamCall_def dest!: cancelDuring_set split: if_splits)
qed

lemma no_timer_in_streamPhase:
  "StartThinkingTimer \<notin> set (fst (streamPhase env args w cid f v))"
proof
  assume "StartThinkingTimer \<in> set (fst (streamPhase env args w cid f v))"
  from streamPhase_set [OF this] show False by auto
qed

lemma no_timer_beforeStream:
  assumes "StartThinkingTimer \<in> set (fst (beforeStream env args w cid))"
  shows "\<not> (isUrlReadRequest (plan (routeTurn (selectedTool env) (planResponse (plannerJson w))
                (prompt args) (argImages args) (argFile args))) \<or>
           planIsMoleculeRequest (plan (routeTurn (selectedTool env) (planResponse (plannerJson w))
                (prompt args) (argImages args) (argFile args))) \<or>
           isWebSearchEnabled (routeTurn (selectedTool env) (planResponse (plannerJson w))
                (prompt args) (argImages args) (argFile args)) \<or>
           hasImages (argImages args))"
proof
  assume flags: "isUrlReadRequest (plan (routeTurn (selectedTool env) (planResponse (plannerJson w))
                (prompt args) (argImages args) (argFile args))) \<or>
           planIsMoleculeRequest (plan (routeTurn (selectedTool env) (planResponse (plannerJson w))
                (prompt args) (argImages args) (argFile args))) \<or>
           isWebSearchEnabled (routeTurn (selectedTool env) (planResponse (plannerJson w))
                (prompt args) (argImages args) (argFile args)) \<or>
           hasImages (argImages args)"
  from in_beforeStream_timer [OF assms] obtain u m where
    u: "snd (urlPhase args w cid (routeTurn (selectedTool env) (planResponse (plannerJson w))
                (prompt args) (argImages args) (argFile args))) = Continue u"
    and m: "snd (moleculePhase args w cid u) = Continue m"
    and on: "isThinkingEnabled m"
    by (elim exE conjE)
  from beforeStream_thinking_off [OF u m refl flags] on show False by simp
qed

lemmas example_defs = exampleEnv_def exampleArgs_def exampleWorld_def plainJson_def

lemmas eval_defs = turn_defs phase_defs example_defs Let_def js_trim_def js_whitespace_def
  titleMatch_def stripTitle_def transformMessagesToHistory_def newConversation_def
  planningMessage_def newUserMessage_def mkMessage_def

section \<open>Properties of the tool routing\<close>

text \<open>
  C6, as amended. For every invocation: if, once the manual override has been applied to
  the plan returned by \<open>planResponse\<close>, the URL-read flag, the molecule flag or web search is
  in effect, or an image is attached, then thinking is disabled for the turn: the thinking
  ticker is never started and the model is never called with thinking enabled. (The
  override \<open>thinking\<close> itself clears a web-search or URL-read flag of the planner and
  enables thinking. A file attachment is not among the conditions.)
\<close>

theorem thinking_off_when_tool_in_effect:
  assumes flags: "isUrlReadRequest (plan (routeTurn (selectedTool env) (planResponse (plannerJson w))
                (prompt args) (argImages args) (argFile args))) \<or>
           planIsMoleculeRequest (plan (routeTurn (selectedTool env) (planResponse (plannerJson w))
                (prompt args) (argImages args) (argFile args))) \<or>
           isWebSearchEnabled (routeTurn (selectedTool env) (planResponse (plannerJson w))
                (prompt args) (argImages args) (argFile args)) \<or>
           hasImages (argImages args)"
  shows "StartThinkingTimer \<notin> set (handleSendMessage env args w) \<and>
         (\<forall>mdl f h ps. Call (SendMessageStream mdl True f h ps) \<notin> set (handleSendMessage env args w))"
proof -
  have timer: "StartThinkingTimer \<notin> set (fst (tryBlock env args w cid f h))" for cid f h
  proof
    assume "StartThinkingTimer \<in> set (fst (tryBlock env args w cid f h))"
    from in_tryBlock [OF this] show False
    proof (elim disjE exE conjE)
      assume "StartThinkingTimer \<in> set (fst (beforeStream env args w cid))"
      from no_timer_beforeStream [OF this] flags show False by simp
    next
      fix v assume "StartThinkingTimer \<in> set (fst (streamOpenPhase env args w cid f h v))"
      with no_timer_in_streamOpen show False by simp
    next
      fix v assume "StartThinkingTimer \<in> set (fst (streamPhase env args w cid f v))"
      with no_timer_in_streamPhase show False by simp
    qed
  qed
  have call: "Call (SendMessageStream mdl True f' h' ps) \<notin> set (fst (tryBlock env args w cid f h))"
    for cid f h mdl f' h' ps
  proof
    assume "Call (SendMessageStream mdl True f' h' ps) \<in> set (fst (tryBlock env args w cid f h))"
    from in_tryBlock [OF this] show False
    proof (elim disjE exE conjE)
      assume "Call (SendMessageStream mdl True f' h' ps) \<in> set (fst (beforeStream env args w cid))"
      with no_thinking_call_beforeStream show False by simp
    next
      fix v assume v: "snd (beforeStream env args w cid) = Continue v"
        and "Call (SendMessageStream mdl True f' h' ps) \<in> set (fst (streamOpenPhase env args w cid f h v))"
      from thinking_call_streamOpen [OF this(2)] thinking_off_at_model_call [OF v flags]
      show False by simp
    next
      fix v assume "Call (SendMessageStream mdl True f' h' ps) \<in> set (fst (streamPhase env args w cid f v))"
      with no_call_in_streamPhase show False by simp
    qed
  qed
  have "StartThinkingTimer \<notin> set (handleSendMessage env args w)"
  proof
    assume "StartThinkingTimer \<in> set (handleSendMessage env args w)"
    from in_handleSendMessage [OF this] obtain cid f h where
      "StartThinkingTimer \<in> set (runTurn env args w cid f h)" by auto
    from in_runTurn [OF this] have "StartThinkingTimer \<in> set (fst (tryBlock env args w cid f h))"
      by simp
    with timer show False by simp
  qed
  moreover have "Call (SendMessageStream mdl True f' h' ps) \<notin> set (handleSendMessage env args w)"
    for mdl f' h' ps
  proof
    assume "Call (SendMessageStream mdl True f' h' ps) \<in> set (handleSendMessage env args w)"
    from in_handleSendMessage [OF this] obtain cid f h where
      "Call (SendMessageStream mdl True f' h' ps) \<in> set (runTurn env args w cid f h)" by auto
    from in_runTurn [OF this]
    have "Call (SendMessageStream mdl True f' h' ps) \<in> set (fst (tryBlock env args w cid f h))"
      by simp
    with call show False by simp
  qed
  ultimately show ?thesis by simp
qed

theorem thinking_off_when_tool_in_effect_witness:
  "isWebSearchEnabled (routeTurn WebSearch (planResponse (Some plainJson)) ''Hi'' None None) \<and>
   StartThinkingTimer \<notin> set (handleSendMessage (exampleEnv\<lparr> selectedTool := WebSearch \<rparr>)
                                  exampleArgs exampleWorld)"
proof -
  have flag: "isWebSearchEnabled (routeTurn WebSearch (planResponse (Some plainJson)) ''Hi'' None None)"
    by (simp add: routeTurn_def initialVars_def hasImages_def Let_def)
  then have "isUrlReadRequest (plan (routeTurn (selectedTool (exampleEnv\<lparr> selectedTool := WebSearch \<rparr>))
                (planResponse (plannerJson exampleWorld))
                (prompt exampleArgs) (argImages exampleArgs) (argFile exampleArgs))) \<or>
           planIsMoleculeRequest (plan (routeTurn (selectedTool (exampleEnv\<lparr> selectedTool := WebSearch \<rparr>))
                (planResponse (plannerJson exampleWorld))
                (prompt exampleArgs) (argImages exampleArgs) (argFile exampleArgs))) \<or>
           isWebSearchEnabled (routeTurn (selectedTool (exampleEnv\<lparr> selectedTool := WebSearch \<rparr>))
                (planResponse (plannerJson exampleWorld))
                (prompt exampleArgs) (argImages exampleArgs) (argFile exampleArgs)) \<or>
           hasImages (argImages exampleArgs)"
    by (simp add: exampleWorld_def exampleArgs_def)
  from thinking_off_when_tool_in_effect [OF this] flag show ?thesis by simp
qed

text \<open>
  The claim C6 as stated fails for a file attachment: the planner is instructed to set
  \<open>needsThinking\<close> for an attached file, and nothing in lines 256-260 switches it off; the
  ticker starts and the model is called with thinking enabled. It also fails for a
  web-search flag set by the planner when the user has selected the tool \<open>thinking\<close>: the
  override clears the flag and enables thinking.
\<close>

theorem file_keeps_thinking_counterexample:
  "argFile (exampleArgs\<lparr> prompt := ''Summarise this'',
             argFile := Some \<lparr> fileBase64 = ''AAAA'', fileMimeType = ''application/pdf'',
                               fileName = ''report.pdf'', fileSize = 3 \<rparr> \<rparr>) \<noteq> None \<and>
   StartThinkingTimer \<in> set (handleSendMessage exampleEnv
         (exampleArgs\<lparr> prompt := ''Summarise this'',
             argFile := Some \<lparr> fileBase64 = ''AAAA'', fileMimeType = ''application/pdf'',
                               fileName = ''report.pdf'', fileSize = 3 \<rparr> \<rparr>)
         (exampleWorld\<lparr> plannerJson := Some (plainJson\<lparr> jsonNeedsThinking := True,
             jsonThoughts := Some [\<lparr> phase = ''Plan'', step = ''Read the file'',
                                      concise_step = ''Reading file'' \<rparr>] \<rparr>) \<rparr>)) \<and>
   Call (SendMessageStream Gemini25Flash True True []
           [InlineData ''AAAA'' ''application/pdf'', Text ''Summarise this''])
     \<in> set (handleSendMessage exampleEnv
         (exampleArgs\<lparr> prompt := ''Summarise this'',
             argFile := Some \<lparr> fileBase64 = ''AAAA'', fileMimeType = ''application/pdf'',
                               fileName = ''report.pdf'', fileSize = 3 \<rparr> \<rparr>)
         (exampleWorld\<lparr> plannerJson := Some (plainJson\<lparr> jsonNeedsThinking := True,
             jsonThoughts := Some [\<lparr> phase = ''Plan'', step = ''Read the file'',
                                      concise_step = ''Reading file'' \<rparr>] \<rparr>) \<rparr>)) \<and>
   needsWebSearch (planResponse (Some (plainJson\<lparr> jsonNeedsWebSearch := True \<rparr>))) \<and>
   Call (SendMessageStream Gemini25Flash True True [] [Text ''Hi''])
     \<in> set (handleSendMessage (exampleEnv\<lparr> selectedTool := Thinking \<rparr>) exampleArgs
         (exampleWorld\<lparr> plannerJson := Some (plainJson\<lparr> jsonNeedsWebSearch := True \<rparr>) \<rparr>))"
  by (simp add: eval_defs)

text \<open>
  C7, as amended. When the URL-read flag is in effect, a URL \<open>u\<close> was supplied, its fetch
  returned the cleaned text \<open>content\<close>, no molecule lookup is requested and the run reaches
  the model call, the prompt sent is exactly \<open>"[URL: " + u + "]\n\n[EXTRACTED WEBPAGE
  CONTENT]:\n" + content + "\n\n[USER QUESTION]:\n" + userPrompt\<close>, as the last part of the
  user message.
\<close>

theorem url_prompt_format:
  assumes reach: "snd (beforeStream env args w cid) = Continue v"
    and isUrl: "isUrlReadRequest (plan (routeTurn (selectedTool env) (planResponse (plannerJson w))
                  (prompt args) (argImages args) (argFile args)))"
    and noMolecule: "\<not> planIsMoleculeRequest (plan (routeTurn (selectedTool env)
                  (planResponse (plannerJson w)) (prompt args) (argImages args) (argFile args)))"
    and u: "argUrl args = Some u"
    and c: "urlFetchResult w = Inr c"
  shows "finalPromptForModel v =
           ''[URL: '' @ u @ '']\<newline>\<newline>[EXTRACTED WEBPAGE CONTENT]:\<newline>'' @ c @
           ''\<newline>\<newline>[USER QUESTION]:\<newline>'' @ prompt args \<and>
         last (userMessageParts args v) = Text (finalPromptForModel v)"
proof -
  from beforeStream_Continue [OF reach] obtain x where
    x: "snd (urlPhase args w cid (routeTurn (selectedTool env) (planResponse (plannerJson w))
                (prompt args) (argImages args) (argFile args))) = Continue x"
    and m: "snd (moleculePhase args w cid x) = Continue v"
    by (elim exE conjE)
  from urlPhase_Continue [OF x] isUrl u c
  have px: "finalPromptForModel x = urlPrompt u c (prompt args)"
    and plx: "plan x = plan (routeTurn (selectedTool env) (planResponse (plannerJson w))
                (prompt args) (argImages args) (argFile args))"
    by auto
  from moleculePhase_Continue [OF m] noMolecule plx have "v = x" by simp
  with px have "finalPromptForModel v = urlPrompt u c (prompt args)" by simp
  then show ?thesis by (simp add: urlPrompt_def userMessageParts_def)
qed

theorem url_prompt_format_witness:
  "last (userMessageParts
      (exampleArgs\<lparr> prompt := ''What is this?'', argUrl := Some ''https://example.com'' \<rparr>)
      (case snd (beforeStream (exampleEnv\<lparr> selectedTool := UrlReader \<rparr>)
             (exampleArgs\<lparr> prompt := ''What is this?'', argUrl := Some ''https://example.com'' \<rparr>)
             exampleWorld ''c1'') of Continue v \<Rightarrow> v)) =
   Text ''[URL: https://example.com]\<newline>\<newline>[EXTRACTED WEBPAGE CONTENT]:\<newline>page text\<newline>\<newline>[USER QUESTION]:\<newline>What is this?''"
proof -
  let ?env = "exampleEnv\<lparr> selectedTool := UrlReader \<rparr>"
  let ?args = "exampleArgs\<lparr> prompt := ''What is this?'', argUrl := Some ''https://example.com'' \<rparr>"
  obtain v where v: "snd (beforeStream ?env ?args exampleWorld ''c1'') = Continue v"
    by (simp add: eval_defs)
  have isUrl: "isUrlReadRequest (plan (routeTurn (selectedTool ?env)
       (planResponse (plannerJson exampleWorld)) (prompt ?args) (argImages ?args) (argFile ?args)))"
    by (simp add: eval_defs)
  have noMolecule: "\<not> planIsMoleculeRequest (plan (routeTurn (selectedTool ?env)
       (planResponse (plannerJson exampleWorld)) (prompt ?args) (argImages ?args) (argFile ?args)))"
    by (simp add: eval_defs)
  have u: "argUrl ?args = Some ''https://example.com''" by simp
  have c: "urlFetchResult exampleWorld = Inr ''page text''" by (simp add: exampleWorld_def)
  from url_prompt_format [OF v isUrl noMolecule u c] v show ?thesis
    by (simp add: exampleArgs_def)
qed

text \<open>
  The claim C7 as stated fails on the labels: the code writes \<open>[EXTRACTED WEBPAGE CONTENT]:\<close>
  and \<open>[USER QUESTION]:\<close>, not \<open>[EXTRACTED CONTENT]:\<close> and \<open>[QUESTION]:\<close>. When the plan
  also asks for a molecule and the lookup succeeds, the prompt sent is the fixed
  instruction of line 316 instead.
\<close>

theorem url_prompt_labels_counterexample:
  "Call (SendMessageStream Gemini25Flash False True []
       [Text (''[URL: '' @ ''https://example.com'' @ '']\<newline>\<newline>[EXTRACTED WEBPAGE CONTENT]:\<newline>'' @
              ''page text'' @ ''\<newline>\<newline>[USER QUESTION]:\<newline>'' @ ''What is this?'')])
     \<in> set (handleSendMessage (exampleEnv\<lparr> selectedTool := UrlReader \<rparr>)
              (exampleArgs\<lparr> prompt := ''What is this?'', argUrl := Some ''https://example.com'' \<rparr>)
              exampleWorld) \<and>
   Call (SendMessageStream Gemini25Flash False True []
       [Text (''[URL: '' @ ''https://example.com'' @ '']\<newline>\<newline>[EXTRACTED CONTENT]:\<newline>'' @
              ''page text'' @ ''\<newline>\<newline>[QUESTION]:\<newline>'' @ ''What is this?'')])
     \<notin> set (handleSendMessage (exampleEnv\<lparr> selectedTool := UrlReader \<rparr>)
              (exampleArgs\<lparr> prompt := ''What is this?'', argUrl := Some ''https://example.com'' \<rparr>)
              exampleWorld) \<and>
   Call (SendMessageStream Gemini25Flash False True [] [Text (moleculePrompt ''caffeine'')])
     \<in> set (handleSendMessage (exampleEnv\<lparr> selectedTool := UrlReader \<rparr>)
              (exampleArgs\<lparr> prompt := ''What is this?'', argUrl := Some ''https://example.com'' \<rparr>)
              (exampleWorld\<lparr> plannerJson := Some (plainJson\<lparr> jsonIsMoleculeRequest := True,
                                jsonMoleculeName := Some ''caffeine'' \<rparr>),
                              moleculeResult := Inr ''C8H10N4O2'' \<rparr>))"
proof -
  have "moleculePrompt ''caffeine'' \<noteq> []" by (simp add: moleculePrompt_def)
  then show ?thesis by (simp add: eval_defs urlPrompt_def)
qed

section \<open>Properties of the title extraction\<close>

lemma dropWhile_ws_append:
  assumes "\<forall>x \<in> set ws. js_whitespace x" and "t \<noteq> []" and "\<not> js_whitespace (hd t)"
  shows "dropWhile js_whitespace (ws @ t @ rest) = t @ rest"
    and "takeWhile js_whitespace (ws @ t @ rest) = ws"
  using assms by (induction ws) (auto simp add: neq_Nil_conv)

lemma title_not_ws: "dropWhile js_whitespace (''TITLE:'' @ s) = ''TITLE:'' @ s"
  by (simp add: js_whitespace_def)

lemma takeWhile_line:
  assumes "CHR 0x0A \<notin> set t"
  shows "takeWhile (\<lambda>c. c \<noteq> CHR 0x0A) (t @ CHR 0x0A # body) = t"
    and "dropWhile (\<lambda>c. c \<noteq> CHR 0x0A) (t @ CHR 0x0A # body) = CHR 0x0A # body"
  using assms by (induction t) auto

lemma title_line:
  assumes pre: "\<forall>x \<in> set pre. js_whitespace x"
    and ws: "\<forall>x \<in> set ws. js_whitespace x"
    and t: "t \<noteq> []" "\<not> js_whitespace (hd t)" "CHR 0x0A \<notin> set t"
  shows "titleMatch (pre @ ''TITLE:'' @ ws @ t @ CHR 0x0A # body) = Some t"
    and "stripTitle (pre @ ''TITLE:'' @ ws @ t @ CHR 0x0A # body) = body"
proof -
  have T: "''TITLE:'' \<noteq> []" "\<not> js_whitespace (hd ''TITLE:'')"
    by (simp_all add: js_whitespace_def)
  have s1: "dropWhile js_whitespace (pre @ ''TITLE:'' @ ws @ t @ CHR 0x0A # body) =
      ''TITLE:'' @ ws @ t @ CHR 0x0A # body"
    using dropWhile_ws_append(1) [OF pre T] by simp
  have r: "dropWhile js_whitespace (ws @ t @ CHR 0x0A # body) = t @ CHR 0x0A # body"
    using dropWhile_ws_append(1) [OF ws t(1,2)] by simp
  have td: "take 6 (''TITLE:'' @ ws @ t @ CHR 0x0A # body) = ''TITLE:''"
    "drop 6 (''TITLE:'' @ ws @ t @ CHR 0x0A # body) = ws @ t @ CHR 0x0A # body"
    by simp_all
  show "titleMatch (pre @ ''TITLE:'' @ ws @ t @ CHR 0x0A # body) = Some t"
    unfolding titleMatch_def s1 td Let_def r
    using t(1) by (simp add: takeWhile_line(1) [OF t(3)])
  show "stripTitle (pre @ ''TITLE:'' @ ws @ t @ CHR 0x0A # body) = body"
    unfolding stripTitle_def s1 td Let_def r
    by (simp add: takeWhile_line(2) [OF t(3)])
qed

lemma processChunk_extracted:
  assumes "titleExtracted st"
  shows "titleExtracted (snd (processChunk f cid w c st))"
    and "UpdateConversation cid x \<notin> set (fst (processChunk f cid w c st))"
  using assms by (simp_all add: processChunk_def Let_def)

lemma streamLoop_extracted:
  assumes "titleExtracted st"
  shows "UpdateConversation cid x \<notin> set (fst (streamLoop f cid w i cs st))"
  using assms
proof (induction cs arbitrary: i st)
  case Nil
  then show ?case by (auto dest!: cancelDuring_set)
next
  case (Cons c cs)
  obtain es st' where pc: "processChunk f cid w c st = (es, st')"
    by (cases "processChunk f cid w c st")
  obtain es' r where sl: "streamLoop f cid w (Suc i) cs st' = (es', r)"
    by (cases "streamLoop f cid w (Suc i) cs st'")
  from processChunk_extracted(1) [OF Cons.prems] pc
  have st': "titleExtracted st'" by (metis snd_conv)
  from processChunk_extracted(2) [OF Cons.prems] pc
  have es: "UpdateConversation cid x \<notin> set es" by (metis fst_conv)
  from Cons.IH [OF st'] sl have es': "UpdateConversation cid x \<notin> set es'" by (metis fst_conv)
  show ?case using pc sl es es'
    by (auto dest!: handleCancelStream_set)
qed

section \<open>The message list while a turn is in flight\<close>

lemma inFlightI:
  assumes "role p = Model" "\<not> analyzing p" "distinct (map id' (xs @ [p]))"
    "\<forall>m \<in> set xs. \<not> planningOrTool m" "\<forall>m \<in> set (butlast xs). \<not> analyzing m"
  shows "inFlight (xs @ [p])"
  using assms by (simp add: inFlight_def butlast_append)

lemma inFlightE:
  assumes "inFlight ms"
  obtains xs p where "ms = xs @ [p]" "role p = Model" "\<not> analyzing p"
    "distinct (map id' (xs @ [p]))" "\<forall>m \<in> set xs. \<not> planningOrTool m"
    "\<forall>m \<in> set (butlast xs). \<not> analyzing m"
proof -
  from assms have ne: "ms \<noteq> []" by (simp add: inFlight_def)
  then have ms: "ms = butlast ms @ [last ms]" by simp
  show ?thesis
  proof (rule that [of "butlast ms" "last ms"])
    show "ms = butlast ms @ [last ms]" by (rule ms)
    show "role (last ms) = Model" using assms by (simp add: inFlight_def)
    show "\<not> analyzing (last ms)" using assms by (simp add: inFlight_def)
    show "distinct (map id' (butlast ms @ [last ms]))" using assms ne by (simp add: inFlight_def)
    show "\<forall>m \<in> set (butlast ms). \<not> planningOrTool m" using assms by (simp add: inFlight_def)
    show "\<forall>m \<in> set (butlast (butlast ms)). \<not> analyzing m" using assms by (simp add: inFlight_def)
  qed
qed

text \<open>An updater applied to every message that keeps identifiers and roles and sets no flag.\<close>

lemma inFlight_map:
  assumes inv: "inFlight ms"
    and g: "\<And>m. id' (g m) = id' m \<and> role (g m) = role m \<and>
              (planningOrTool (g m) \<longrightarrow> planningOrTool m) \<and> (analyzing (g m) \<longrightarrow> analyzing m)"
  shows "inFlight (map g ms)"
proof -
  from inv obtain xs p where ms: "ms = xs @ [p]" and p: "role p = Model" "\<not> analyzing p"
    and d: "distinct (map id' (xs @ [p]))" and pt: "\<forall>m \<in> set xs. \<not> planningOrTool m"
    and an: "\<forall>m \<in> set (butlast xs). \<not> analyzing m"
    by (rule inFlightE)
  have ids: "map id' (map g zs) = map id' zs" for zs
    using g by (induction zs) simp_all
  have "inFlight (map g xs @ [g p])"
  proof (rule inFlightI)
    show "role (g p) = Model" using g p by simp
    show "\<not> analyzing (g p)" using g p by blast
    show "distinct (map id' (map g xs @ [g p]))"
    proof -
      have "map id' (map g xs @ [g p]) = map id' (map g (xs @ [p]))" by simp
      also have "\<dots> = map id' (xs @ [p])" by (rule ids)
      finally have e: "map id' (map g xs @ [g p]) = map id' (xs @ [p])" .
      show ?thesis unfolding e by (rule d)
    qed
    show "\<forall>m \<in> set (map g xs). \<not> planningOrTool m" using pt g by auto
    show "\<forall>m \<in> set (butlast (map g xs)). \<not> analyzing m" using an g by (auto simp add: map_butlast [symmetric])
  qed
  then show ?thesis by (simp add: ms)
qed

text \<open>An updater of the last message that keeps its identifier and role and sets no analysis flag.\<close>

lemma inFlight_last:
  assumes inv: "inFlight ms"
    and f: "id' (f (last ms)) = id' (last ms)" "role (f (last ms)) = role (last ms)"
      "analyzing (f (last ms)) \<longrightarrow> analyzing (last ms)"
  shows "inFlight (butlast ms @ [f (last ms)])"
proof -
  from inv obtain xs p where ms: "ms = xs @ [p]" and p: "role p = Model" "\<not> analyzing p"
    and d: "distinct (map id' (xs @ [p]))" and pt: "\<forall>m \<in> set xs. \<not> planningOrTool m"
    and an: "\<forall>m \<in> set (butlast xs). \<not> analyzing m"
    by (rule inFlightE)
  have "inFlight (xs @ [f p])"
  proof (rule inFlightI)
    show "role (f p) = Model" using f p ms by simp
    show "\<not> analyzing (f p)" using f p ms by simp
    show "distinct (map id' (xs @ [f p]))" using d f ms by simp
    show "\<forall>m \<in> set xs. \<not> planningOrTool m" by (rule pt)
    show "\<forall>m \<in> set (butlast xs). \<not> analyzing m" by (rule an)
  qed
  then show ?thesis by (simp add: ms)
qed

text \<open>
  The updater of lines 251-259: with distinct identifiers it changes the message before
  the last one only.
\<close>

lemma inFlight_secondLast:
  assumes inv: "inFlight ms"
    and f: "\<And>m. id' (f m) = id' m \<and> role (f m) = role m \<and> (planningOrTool (f m) \<longrightarrow> planningOrTool m)"
  shows "inFlight (updateSecondLastById f ms)"
proof -
  from inv obtain xs p where ms: "ms = xs @ [p]" and p: "role p = Model" "\<not> analyzing p"
    and d: "distinct (map id' (xs @ [p]))" and pt: "\<forall>m \<in> set xs. \<not> planningOrTool m"
    and an: "\<forall>m \<in> set (butlast xs). \<not> analyzing m"
    by (rule inFlightE)
  show ?thesis
  proof (cases xs rule: rev_cases)
    case Nil
    with ms inv show ?thesis by (simp add: updateSecondLastById_def)
  next
    case (snoc ys u)
    have len: "\<not> length ms < 2" "ms ! (length ms - 2) = u"
      using ms snoc by (simp_all add: nth_append)
    from d snoc have du: "id' u \<notin> id' ` set ys" "id' p \<noteq> id' u" by auto
    have ysmap: "map (\<lambda>m. if id' m = id' u then f m else m) ys = ys"
      using du(1) by (induction ys) auto
    have upd: "updateSecondLastById f ms = ys @ [f u] @ [p]"
      unfolding updateSecondLastById_def using len ms snoc ysmap du(2) by simp
    have "inFlight ((ys @ [f u]) @ [p])"
    proof (rule inFlightI)
      show "role p = Model" by (rule p(1))
      show "\<not> analyzing p" by (rule p(2))
      show "distinct (map id' ((ys @ [f u]) @ [p]))" using d snoc f by simp
      show "\<forall>m \<in> set (ys @ [f u]). \<not> planningOrTool m" using pt snoc f by auto
      show "\<forall>m \<in> set (butlast (ys @ [f u])). \<not> analyzing m" using an snoc by simp
    qed
    with upd show ?thesis by simp
  qed
qed


lemma inFlight_updateLast:
  assumes "inFlight ms"
    and "\<And>m. id' (f m) = id' m \<and> role (f m) = role m \<and> (analyzing (f m) \<longrightarrow> analyzing m)"
  shows "inFlight (updateLast f ms)"
proof -
  from assms(1) have "ms \<noteq> []" by (simp add: inFlight_def)
  then have "updateLast f ms = butlast ms @ [f (last ms)]" by (simp add: updateLast_def)
  moreover have "inFlight (butlast ms @ [f (last ms)])"
    by (rule inFlight_last [OF assms(1)]) (simp_all add: assms(2))
  ultimately show ?thesis by simp
qed

lemma inFlight_updateLastModel:
  assumes "inFlight ms"
    and "\<And>m. id' (f m) = id' m \<and> role (f m) = role m \<and> (analyzing (f m) \<longrightarrow> analyzing m)"
  shows "inFlight (updateLastModel f ms)"
proof -
  from assms(1) have "ms \<noteq> [] \<and> role (last ms) = Model" by (simp add: inFlight_def)
  then have "updateLastModel f ms = butlast ms @ [f (last ms)]" by (simp add: updateLastModel_def)
  moreover have "inFlight (butlast ms @ [f (last ms)])"
    by (rule inFlight_last [OF assms(1)]) (simp_all add: assms(2))
  ultimately show ?thesis by simp
qed

lemmas flag_defs = planningOrTool_def analyzing_def truthy_def

lemma inFlight_applyUpdate:
  assumes inv: "inFlight ms" and later: "laterUpdate u"
  shows "inFlight (applyUpdate u ms)"
proof -
  from inv have ne: "ms \<noteq> []" and lm: "role (last ms) = Model" by (simp_all add: inFlight_def)
  show ?thesis
  proof (cases u)
    case (AppendUserAndPlanning a b) with later show ?thesis by simp
  next
    case (AppendPlanning a) with later show ?thesis by simp
  next
    case (SliceTo n) with later show ?thesis by simp
  next
    case MarkAnalyzingImage
    show ?thesis unfolding MarkAnalyzingImage applyUpdate.simps
      by (rule inFlight_secondLast [OF inv]) (simp add: flag_defs)
  next
    case MarkAnalyzingFile
    show ?thesis unfolding MarkAnalyzingFile applyUpdate.simps
      by (rule inFlight_secondLast [OF inv]) (simp add: flag_defs)
  next
    case (ToolErrorShown e)
    show ?thesis unfolding ToolErrorShown applyUpdate.simps
      by (rule inFlight_updateLast [OF inv]) (simp add: flag_defs)
  next
    case LongToolUseFired
    show ?thesis unfolding LongToolUseFired applyUpdate.simps
      by (rule inFlight_updateLastModel [OF inv]) (simp add: flag_defs)
  next
    case UrlToolStarted
    show ?thesis unfolding UrlToolStarted applyUpdate.simps
      by (rule inFlight_updateLast [OF inv]) (simp add: flag_defs)
  next
    case MoleculeStarted
    show ?thesis unfolding MoleculeStarted applyUpdate.simps
      by (rule inFlight_updateLast [OF inv]) (simp add: flag_defs)
  next
    case (MoleculeFound d)
    show ?thesis unfolding MoleculeFound applyUpdate.simps
      by (rule inFlight_updateLast [OF inv]) (simp add: flag_defs)
  next
    case (MoleculeFailed n)
    show ?thesis unfolding MoleculeFailed applyUpdate.simps
      by (rule inFlight_updateLast [OF inv]) (simp add: flag_defs)
  next
    case (PlanningDone ths)
    have "inFlight (butlast ms @
        [(\<lambda>m. m\<lparr> isPlanning := Some False, toolInUse := None, thoughts := Some ths \<rparr>) (last ms)])"
      by (rule inFlight_last [OF inv]) (simp_all add: flag_defs)
    with inv show ?thesis unfolding PlanningDone by simp
  next
    case (ThinkingTick t)
    show ?thesis unfolding ThinkingTick applyUpdate.simps
      by (rule inFlight_updateLastModel [OF inv]) (simp add: flag_defs)
  next
    case (SearchPlanShown sp)
    show ?thesis unfolding SearchPlanShown applyUpdate.simps
      by (rule inFlight_updateLastModel [OF inv]) (simp add: flag_defs)
  next
    case ImageAnalysisDone
    show ?thesis unfolding ImageAnalysisDone applyUpdate.simps
      by (rule inFlight_map [OF inv]) (simp add: flag_defs)
  next
    case FileAnalysisDone
    show ?thesis unfolding FileAnalysisDone applyUpdate.simps
      by (rule inFlight_map [OF inv]) (simp add: flag_defs)
  next
    case (StreamChunk d g n t)
    have "inFlight (butlast ms @
        [(\<lambda>m. m\<lparr> content := d, sources := g, isPlanning := Some False \<rparr>) (last ms)])"
      by (rule inFlight_last [OF inv]) (simp_all add: flag_defs)
    with ne lm show ?thesis unfolding StreamChunk by simp
  next
    case (TokensAnnotated usage p used)
    have "inFlight (butlast ms @
        [(\<lambda>m. m\<lparr> inputTokens := Some (if used then totalPromptTokens usage else estimateTokens p),
                 outputTokens := candidatesTokenCount usage,
                 systemTokens := (if (if used then 0 else totalPromptTokens usage - estimateTokens p) > 0
                                  then Some (if used then 0 else totalPromptTokens usage - estimateTokens p)
                                  else None) \<rparr>) (last ms)])"
      by (rule inFlight_last [OF inv]) (simp_all add: flag_defs)
    with ne lm show ?thesis unfolding TokensAnnotated by (simp add: annotateTokens_def Let_def)
  next
    case MemoryUpdated
    show ?thesis unfolding MemoryUpdated applyUpdate.simps
      by (rule inFlight_updateLastModel [OF inv]) (simp add: flag_defs)
  next
    case (ErrorShown f n t)
    have "inFlight (butlast ms @
        [(\<lambda>m. m\<lparr> isPlanning := Some False, toolInUse := None, content := errorText f \<rparr>) (last ms)])"
      by (rule inFlight_last [OF inv]) (simp_all add: flag_defs)
    with ne lm show ?thesis unfolding ErrorShown by simp
  next
    case AnalysisFlagsCleared
    show ?thesis unfolding AnalysisFlagsCleared applyUpdate.simps
      by (rule inFlight_map [OF inv]) (simp add: flag_defs Let_def)
  next
    case (GenerationTimeStamped t)
    have "inFlight (butlast ms @ [(\<lambda>m. m\<lparr> generationTime := Some t \<rparr>) (last ms)])"
      by (rule inFlight_last [OF inv]) (simp_all add: flag_defs)
    with inv show ?thesis unfolding GenerationTimeStamped by simp
  next
    case (CancelUpdate n t)
    have stripped: "inFlight (map stripTransient ms)"
      by (rule inFlight_map [OF inv]) (simp add: flag_defs stripTransient_def)
    have "inFlight (butlast (map stripTransient ms) @
        [(\<lambda>m. m\<lparr> content := (if js_trim (content (last ms)) \<noteq> []
            then js_trim (content (last ms)) @ ''\<newline>\<newline>'' @ stopNotice else stopNotice) \<rparr>)
          (last (map stripTransient ms))])"
      by (rule inFlight_last [OF stripped]) (simp_all add: flag_defs)
    then show ?thesis unfolding CancelUpdate
      using ne lm by (simp add: cancelMessages_last_model last_map)
  qed
qed

lemma inFlight_trace:
  assumes "inFlight ms" and "\<forall>u \<in> set us. laterUpdate u"
  shows "\<forall>s \<in> set (messageTrace us ms). inFlight s"
  using assms
proof (induction us arbitrary: ms)
  case Nil
  then show ?case by simp
next
  case (Cons u us)
  from Cons.prems have "inFlight (applyUpdate u ms)" by (simp add: inFlight_applyUpdate)
  with Cons.IH [of "applyUpdate u ms"] Cons.prems show ?case by simp
qed

lemma messageUpdates_append:
  "messageUpdates c (a @ b) = messageUpdates c a @ messageUpdates c b"
  by (induction c a rule: messageUpdates.induct) simp_all

lemma set_messageUpdates:
  "u \<in> set (messageUpdates c es) \<longleftrightarrow> UpdateConversationMessages c u \<in> set es"
  by (induction c es rule: messageUpdates.induct) auto

lemma messageUpdates_empty:
  assumes "\<And>u. UpdateConversationMessages c u \<notin> set es"
  shows "messageUpdates c es = []"
proof (cases "messageUpdates c es")
  case Nil
  then show ?thesis .
next
  case (Cons u us)
  then have "u \<in> set (messageUpdates c es)" by simp
  with assms show ?thesis by (simp add: set_messageUpdates)
qed

lemma beforeStream_later:
  assumes "UpdateConversationMessages c u \<in> set (fst (beforeStream env args w cid))"
  shows "c = cid \<and> laterUpdate u"
  using assms
  apply (simp add: beforeStream_def in_thenStep)
  apply (elim disjE exE conjE)
  subgoal by (auto dest!: planPhase_set cancelDuring_set)
  subgoal by (auto simp add: markPhase_def split: if_splits)
  subgoal by (auto simp add: urlPhase_def handleToolError_def Let_def dest!: cancelDuring_set split: if_splits sum.splits)
  subgoal by (auto simp add: moleculePhase_def Let_def dest!: cancelDuring_set split: if_splits sum.splits)
  subgoal by (auto simp add: preStreamPhase_def split: if_splits)
  subgoal by (auto simp add: codePhase_def Let_def dest!: cancelDuring_set split: if_splits sum.splits)
  done

lemma streamOpenPhase_later:
  assumes "UpdateConversationMessages c u \<in> set (fst (streamOpenPhase env args w cid f h v))"
  shows "c = cid \<and> laterUpdate u"
  using streamOpenPhase_set [OF assms] by (auto dest!: cancelDuring_set)

lemma streamPhase_later:
  assumes "UpdateConversationMessages c u \<in> set (fst (streamPhase env args w cid f v))"
  shows "c = cid \<and> laterUpdate u"
  using streamPhase_set [OF assms] by auto

lemma tryBlock_later:
  assumes "UpdateConversationMessages c u \<in> set (fst (tryBlock env args w cid f h))"
  shows "c = cid \<and> laterUpdate u"
  using in_tryBlock [OF assms] beforeStream_later streamOpenPhase_later streamPhase_later
  by (elim disjE exE conjE) simp_all

lemma catchBlock_later:
  assumes "UpdateConversationMessages c u \<in> set (catchBlock w cid body exit)"
  shows "c = cid \<and> laterUpdate u"
  using assms by (auto simp add: catchBlock_def split: Step.splits if_splits)

lemma finallyBlock_later:
  assumes "UpdateConversationMessages c u \<in> set (finallyBlock w cid body)"
  shows "c = cid \<and> laterUpdate u"
  using assms by (auto simp add: finallyBlock_def split: if_splits)

lemma messageUpdates_runTurn:
  "\<exists>us. (\<forall>u \<in> set us. laterUpdate u) \<and>
     messageUpdates c (runTurn env args w cid f h) =
       (if c = cid then appendForTurn env args w # us else [])"
proof -
  let ?body = "tryBlock env args w cid f h"
  let ?rest = "fst ?body @ catchBlock w cid (fst ?body) (snd ?body) @ finallyBlock w cid (fst ?body)"
  have rest: "c' = cid \<and> laterUpdate u" if "UpdateConversationMessages c' u \<in> set ?rest" for c' u
    using that tryBlock_later catchBlock_later finallyBlock_later by auto
  have run: "runTurn env args w cid f h =
      [SetError None, SetIsLoading True, SetCancelledRef False, StartResponseTimer,
       UpdateConversationMessages cid (appendForTurn env args w)] @ ?rest"
    by (simp add: runTurn_def Let_def)
  show ?thesis
  proof (cases "c = cid")
    case True
    have "\<forall>u \<in> set (messageUpdates c ?rest). laterUpdate u"
      using rest by (auto simp add: set_messageUpdates)
    moreover have "messageUpdates c (runTurn env args w cid f h) =
        appendForTurn env args w # messageUpdates c ?rest"
      unfolding run messageUpdates_append using True by simp
    ultimately show ?thesis using True by auto
  next
    case False
    have "messageUpdates c ?rest = []"
      by (rule messageUpdates_empty) (use rest False in blast)
    then have "messageUpdates c (runTurn env args w cid f h) = []"
      unfolding run messageUpdates_append using False by simp
    with False show ?thesis by (intro exI [of _ "[]"]) simp
  qed
qed

lemma messageUpdates_handleSendMessage:
  "messageUpdates c (handleSendMessage env args w) = [] \<or>
   (\<exists>us. (\<forall>u \<in> set us. laterUpdate u) \<and>
      messageUpdates c (handleSendMessage env args w) = appendForTurn env args w # us)"
proof -
  have run: "messageUpdates c (runTurn env args w cid f h) = [] \<or>
     (\<exists>us. (\<forall>u \<in> set us. laterUpdate u) \<and>
        messageUpdates c (runTurn env args w cid f h) = appendForTurn env args w # us)" for cid f h
    using messageUpdates_runTurn [of c env args w cid f h] by (cases "c = cid") auto
  show ?thesis
    unfolding handleSendMessage_def Let_def
    using run by (auto split: option.splits)
qed

lemma filter_last_two:
  assumes "\<forall>m \<in> set (butlast (butlast ms)). \<not> Q m"
  shows "length (filter Q ms) \<le> 2"
proof -
  have "butlast (butlast ms) = take (length ms - 2) ms"
    by (simp add: butlast_conv_take min_def numeral_2_eq_2)
  then have ms: "ms = butlast (butlast ms) @ drop (length ms - 2) ms"
    by simp
  have "filter Q (butlast (butlast ms)) = []" using assms by (simp add: filter_empty_conv)
  then have "filter Q ms = filter Q (drop (length ms - 2) ms)"
    by (subst ms) simp
  moreover have "length (filter Q (drop (length ms - 2) ms)) \<le> length (drop (length ms - 2) ms)"
    by (rule length_filter_le)
  moreover have "length (drop (length ms - 2) ms) \<le> 2" by simp
  ultimately show ?thesis by simp
qed


lemma flags_of_clean:
  assumes "\<forall>m \<in> set ms. \<not> carriesTransientFlag m"
  shows "(\<forall>m \<in> set (butlast ms). \<not> truthy (isPlanning m) \<and> toolInUse m = None) \<and>
         (\<forall>m \<in> set (butlast (butlast ms)).
            \<not> truthy (isAnalyzingImage m) \<and> \<not> truthy (isAnalyzingFile m)) \<and>
         (ms \<noteq> [] \<longrightarrow>
            \<not> truthy (isAnalyzingImage (last ms)) \<and> \<not> truthy (isAnalyzingFile (last ms))) \<and>
         length (filter carriesTransientFlag ms) \<le> 2"
proof -
  have "filter carriesTransientFlag ms = []" using assms by (simp add: filter_empty_conv)
  then have "length (filter carriesTransientFlag ms) \<le> 2" by simp
  moreover have "\<forall>m \<in> set (butlast ms). \<not> truthy (isPlanning m) \<and> toolInUse m = None"
    using assms by (auto simp add: carriesTransientFlag_def planningOrTool_def dest: in_set_butlastD)
  moreover have "\<forall>m \<in> set (butlast (butlast ms)).
            \<not> truthy (isAnalyzingImage m) \<and> \<not> truthy (isAnalyzingFile m)"
    using assms by (auto simp add: carriesTransientFlag_def analyzing_def dest!: in_set_butlastD)
  moreover have "ms \<noteq> [] \<longrightarrow>
            \<not> truthy (isAnalyzingImage (last ms)) \<and> \<not> truthy (isAnalyzingFile (last ms))"
    using assms by (auto simp add: carriesTransientFlag_def analyzing_def)
  ultimately show ?thesis by simp
qed

lemma flags_of_inFlight:
  assumes "inFlight ms"
  shows "(\<forall>m \<in> set (butlast ms). \<not> truthy (isPlanning m) \<and> toolInUse m = None) \<and>
         (\<forall>m \<in> set (butlast (butlast ms)).
            \<not> truthy (isAnalyzingImage m) \<and> \<not> truthy (isAnalyzingFile m)) \<and>
         (ms \<noteq> [] \<longrightarrow>
            \<not> truthy (isAnalyzingImage (last ms)) \<and> \<not> truthy (isAnalyzingFile (last ms))) \<and>
         length (filter carriesTransientFlag ms) \<le> 2"
proof -
  from assms have a: "\<forall>m \<in> set (butlast ms). \<not> planningOrTool m"
    and b: "\<forall>m \<in> set (butlast (butlast ms)). \<not> analyzing m"
    and c: "\<not> analyzing (last ms)"
    by (simp_all add: inFlight_def)
  have "\<forall>m \<in> set (butlast (butlast ms)). \<not> carriesTransientFlag m"
    using a b by (auto simp add: carriesTransientFlag_def dest: in_set_butlastD)
  then have "length (filter carriesTransientFlag ms) \<le> 2" by (rule filter_last_two)
  with a b c show ?thesis by (simp add: planningOrTool_def analyzing_def)
qed

lemma inFlight_start:
  assumes clean: "\<forall>m \<in> set ms0. \<not> carriesTransientFlag m"
    and ids: "distinct (map id' ms0 @ [userMessageId' w, planningMessageId w])"
  shows "inFlight (applyUpdate (appendForTurn env args w) ms0)"
proof -
  have p: "role (planningMessage env args w) = Model" "\<not> analyzing (planningMessage env args w)"
    "id' (planningMessage env args w) = planningMessageId w"
    by (simp_all add: planningMessage_def mkMessage_def analyzing_def truthy_def)
  have u: "\<not> planningOrTool (newUserMessage env args w)" "\<not> analyzing (newUserMessage env args w)"
    "id' (newUserMessage env args w) = userMessageId' w"
    by (simp_all add: newUserMessage_def mkMessage_def analyzing_def planningOrTool_def truthy_def)
  from clean have c0: "\<forall>m \<in> set ms0. \<not> planningOrTool m" "\<forall>m \<in> set ms0. \<not> analyzing m"
    by (simp_all add: carriesTransientFlag_def)
  show ?thesis
  proof (cases "isRetry args")
    case False
    have "inFlight ((ms0 @ [newUserMessage env args w]) @ [planningMessage env args w])"
    proof (rule inFlightI)
      show "role (planningMessage env args w) = Model" by (rule p(1))
      show "\<not> analyzing (planningMessage env args w)" by (rule p(2))
      show "distinct (map id' ((ms0 @ [newUserMessage env args w]) @ [planningMessage env args w]))"
        using ids p(3) u(3) by simp
      show "\<forall>m \<in> set (ms0 @ [newUserMessage env args w]). \<not> planningOrTool m"
        using c0(1) u(1) by simp
      show "\<forall>m \<in> set (butlast (ms0 @ [newUserMessage env args w])). \<not> analyzing m"
        using c0(2) by simp
    qed
    with False show ?thesis by (simp add: appendForTurn_def)
  next
    case True
    have "inFlight (ms0 @ [planningMessage env args w])"
    proof (rule inFlightI)
      show "role (planningMessage env args w) = Model" by (rule p(1))
      show "\<not> analyzing (planningMessage env args w)" by (rule p(2))
      show "distinct (map id' (ms0 @ [planningMessage env args w]))"
        using ids p(3) by simp
      show "\<forall>m \<in> set ms0. \<not> planningOrTool m" by (rule c0(1))
      show "\<forall>m \<in> set (butlast ms0). \<not> analyzing m"
        using c0(2) by (auto dest: in_set_butlastD)
    qed
    with True show ?thesis by (simp add: appendForTurn_def)
  qed
qed

section \<open>Transient flags during a turn\<close>

text \<open>
  C1, as amended. Take a conversation whose messages carry none of the flags
  \<open>isPlanning\<close>, \<open>toolInUse\<close>, \<open>isAnalyzingImage\<close>, \<open>isAnalyzingFile\<close> and have distinct
  identifiers, and fresh identifiers for the messages of the turn. At every instant of the
  turn (before the first update of the message list and after each one, cancellation
  included), \<open>isPlanning\<close> and \<open>toolInUse\<close> are carried by the last message only (the model
  message of the turn), \<open>isAnalyzingImage\<close> and \<open>isAnalyzingFile\<close> by the message before
  the last one only (the user's message), and so at most two messages carry a transient
  flag; the user's message can be under analysis while the model message is still planning
  or using a tool.
\<close>

theorem transient_flags_on_last_two:
  assumes clean: "\<forall>m \<in> set ms0. \<not> carriesTransientFlag m"
    and ids: "distinct (map id' ms0 @ [userMessageId' w, planningMessageId w])"
  shows "\<forall>ms \<in> set (messageTrace (messageUpdates c (handleSendMessage env args w)) ms0).
           (\<forall>m \<in> set (butlast ms). \<not> truthy (isPlanning m) \<and> toolInUse m = None) \<and>
           (\<forall>m \<in> set (butlast (butlast ms)).
              \<not> truthy (isAnalyzingImage m) \<and> \<not> truthy (isAnalyzingFile m)) \<and>
           (ms \<noteq> [] \<longrightarrow>
              \<not> truthy (isAnalyzingImage (last ms)) \<and> \<not> truthy (isAnalyzingFile (last ms))) \<and>
           length (filter carriesTransientFlag ms) \<le> 2"
proof -
  from messageUpdates_handleSendMessage [of c env args w]
  show ?thesis
  proof (elim disjE exE conjE)
    assume "messageUpdates c (handleSendMessage env args w) = []"
    then show ?thesis using flags_of_clean [OF clean] by simp
  next
    fix us
    assume later: "\<forall>u \<in> set us. laterUpdate u"
      and eq: "messageUpdates c (handleSendMessage env args w) = appendForTurn env args w # us"
    have "inFlight (applyUpdate (appendForTurn env args w) ms0)"
      by (rule inFlight_start [OF clean ids])
    from inFlight_trace [OF this later]
    have tr: "\<forall>s \<in> set (messageTrace us (applyUpdate (appendForTurn env args w) ms0)). inFlight s" .
    show ?thesis
      unfolding eq
    proof (intro ballI)
      fix ms
      assume "ms \<in> set (messageTrace (appendForTurn env args w # us) ms0)"
      then have "ms = ms0 \<or>
          ms \<in> set (messageTrace us (applyUpdate (appendForTurn env args w) ms0))"
        by simp
      then show "(\<forall>m \<in> set (butlast ms). \<not> truthy (isPlanning m) \<and> toolInUse m = None) \<and>
           (\<forall>m \<in> set (butlast (butlast ms)).
              \<not> truthy (isAnalyzingImage m) \<and> \<not> truthy (isAnalyzingFile m)) \<and>
           (ms \<noteq> [] \<longrightarrow>
              \<not> truthy (isAnalyzingImage (last ms)) \<and> \<not> truthy (isAnalyzingFile (last ms))) \<and>
           length (filter carriesTransientFlag ms) \<le> 2"
      proof
        assume "ms = ms0"
        then show ?thesis using flags_of_clean [OF clean] by simp
      next
        assume "ms \<in> set (messageTrace us (applyUpdate (appendForTurn env args w) ms0))"
        with tr have "inFlight ms" by simp
        then show ?thesis by (rule flags_of_inFlight)
      qed
    qed
  qed
qed

theorem transient_flags_on_last_two_witness:
  "\<not> carriesTransientFlag (mkMessage ''m0'' User ''Hello'') \<and>
   \<not> carriesTransientFlag (mkMessage ''m1'' Model ''Hi there'') \<and>
   distinct (map id' [mkMessage ''m0'' User ''Hello'', mkMessage ''m1'' Model ''Hi there''] @
     [userMessageId' exampleWorld, planningMessageId exampleWorld]) \<and>
   list_all (\<lambda>ms. length (filter carriesTransientFlag ms) \<le> 2)
     (messageTrace (messageUpdates ''conv-1''
        (handleSendMessage
           (exampleEnvWith [mkMessage ''m0'' User ''Hello'', mkMessage ''m1'' Model ''Hi there''])
           (exampleArgs\<lparr> prompt := ''What is in this picture?'',
                          argImages := Some [\<lparr> base64 = ''AAAA'', mimeType = ''image/png'' \<rparr>] \<rparr>)
           exampleWorld))
        [mkMessage ''m0'' User ''Hello'', mkMessage ''m1'' Model ''Hi there''])"
proof -
  let ?ms0 = "[mkMessage ''m0'' User ''Hello'', mkMessage ''m1'' Model ''Hi there'']"
  have clean: "\<forall>m \<in> set ?ms0. \<not> carriesTransientFlag m"
    by (simp add: mkMessage_def carriesTransientFlag_def flag_defs)
  have ids: "distinct (map id' ?ms0 @ [userMessageId' exampleWorld, planningMessageId exampleWorld])"
    by (simp add: mkMessage_def exampleWorld_def)
  from transient_flags_on_last_two [OF clean ids]
  have "list_all (\<lambda>ms. length (filter carriesTransientFlag ms) \<le> 2)
     (messageTrace (messageUpdates ''conv-1''
        (handleSendMessage (exampleEnvWith ?ms0)
           (exampleArgs\<lparr> prompt := ''What is in this picture?'',
                          argImages := Some [\<lparr> base64 = ''AAAA'', mimeType = ''image/png'' \<rparr>] \<rparr>)
           exampleWorld)) ?ms0)"
    unfolding list_all_iff by blast
  with clean ids show ?thesis by simp
qed

text \<open>
  The claim C1 as stated fails: for a prompt with an image, after the update of line 251 the
  user's message carries \<open>isAnalyzingImage\<close> while the planning stub appended at line 199
  still carries \<open>isPlanning\<close> (it is cleared at line 335 only).
\<close>

theorem analysis_with_planning_counterexample:
  "length (filter carriesTransientFlag
     (messageTrace (messageUpdates ''conv-new''
        (handleSendMessage exampleEnv
           (exampleArgs\<lparr> prompt := ''What is in this picture?'',
                          argImages := Some [\<lparr> base64 = ''AAAA'', mimeType = ''image/png'' \<rparr>] \<rparr>)
           exampleWorld)) [] ! 2)) = 2 \<and>
   truthy (isAnalyzingImage
     (messageTrace (messageUpdates ''conv-new''
        (handleSendMessage exampleEnv
           (exampleArgs\<lparr> prompt := ''What is in this picture?'',
                          argImages := Some [\<lparr> base64 = ''AAAA'', mimeType = ''image/png'' \<rparr>] \<rparr>)
           exampleWorld)) [] ! 2 ! 0)) \<and>
   truthy (isPlanning
     (messageTrace (messageUpdates ''conv-new''
        (handleSendMessage exampleEnv
           (exampleArgs\<lparr> prompt := ''What is in this picture?'',
                          argImages := Some [\<lparr> base64 = ''AAAA'', mimeType = ''image/png'' \<rparr>] \<rparr>)
           exampleWorld)) [] ! 2 ! 1))"
  by (simp add: eval_defs updateSecondLastById_def carriesTransientFlag_def flag_defs)

section \<open>Properties of retry\<close>

lemma lastModelMessageIndex_none:
  "\<forall>x \<in> set post. role x = User \<Longrightarrow> lastModelMessageIndex post = None"
  by (induction post) simp_all

lemma lastModelMessageIndex_found:
  assumes "role m = Model" and "\<forall>x \<in> set post. role x = User"
  shows "lastModelMessageIndex (xs @ m # post) = Some (length xs)"
  using assms by (induction xs) (simp_all add: lastModelMessageIndex_none)

lemma userIds_map:
  assumes "\<And>m. id' (g m) = id' m \<and> role (g m) = role m"
  shows "userIds (map g ms) = userIds ms"
  using assms by (induction ms) (simp_all add: userIds_def)

lemma userIds_append: "userIds (a @ b) = userIds a @ userIds b"
  by (simp add: userIds_def)

lemma userIds_updateLast_gen:
  assumes "ms \<noteq> []" and "id' (f (last ms)) = id' (last ms) \<and> role (f (last ms)) = role (last ms)"
  shows "userIds (butlast ms @ [f (last ms)]) = userIds ms"
proof -
  have "userIds ms = userIds (butlast ms @ [last ms])" using assms(1) by simp
  also have "\<dots> = userIds (butlast ms) @ userIds [last ms]" by (rule userIds_append)
  also have "userIds [last ms] = userIds [f (last ms)]" using assms(2) by (simp add: userIds_def)
  finally show ?thesis by (simp add: userIds_append)
qed

lemma userIds_updateLast:
  assumes "\<And>m. id' (f m) = id' m \<and> role (f m) = role m"
  shows "userIds (updateLast f ms) = userIds ms"
  using userIds_updateLast_gen [of ms f] assms by (simp add: updateLast_def)

lemma userIds_updateLastModel:
  assumes "\<And>m. id' (f m) = id' m \<and> role (f m) = role m"
  shows "userIds (updateLastModel f ms) = userIds ms"
  using userIds_updateLast_gen [of ms f] assms by (simp add: updateLastModel_def)

lemma userIds_updateSecondLastById:
  assumes "\<And>m. id' (f m) = id' m \<and> role (f m) = role m"
  shows "userIds (updateSecondLastById f ms) = userIds ms"
  unfolding updateSecondLastById_def
  using userIds_map [of "\<lambda>m. if id' m = id' (ms ! (length ms - 2)) then f m else m" ms] assms
  by simp

lemma userIds_applyUpdate:
  assumes "laterUpdate u"
  shows "userIds (applyUpdate u ms) = userIds ms"
proof (cases u)
  case (AppendUserAndPlanning a b) with assms show ?thesis by simp
next
  case (AppendPlanning a) with assms show ?thesis by simp
next
  case (SliceTo n) with assms show ?thesis by simp
next
  case MarkAnalyzingImage
  show ?thesis unfolding MarkAnalyzingImage applyUpdate.simps
    by (rule userIds_updateSecondLastById) simp
next
  case MarkAnalyzingFile
  show ?thesis unfolding MarkAnalyzingFile applyUpdate.simps
    by (rule userIds_updateSecondLastById) simp
next
  case (ToolErrorShown e)
  show ?thesis unfolding ToolErrorShown applyUpdate.simps by (rule userIds_updateLast) simp
next
  case LongToolUseFired
  show ?thesis unfolding LongToolUseFired applyUpdate.simps by (rule userIds_updateLastModel) simp
next
  case UrlToolStarted
  show ?thesis unfolding UrlToolStarted applyUpdate.simps by (rule userIds_updateLast) simp
next
  case MoleculeStarted
  show ?thesis unfolding MoleculeStarted applyUpdate.simps by (rule userIds_updateLast) simp
next
  case (MoleculeFound d)
  show ?thesis unfolding MoleculeFound applyUpdate.simps by (rule userIds_updateLast) simp
next
  case (MoleculeFailed n)
  show ?thesis unfolding MoleculeFailed applyUpdate.simps by (rule userIds_updateLast) simp
next
  case (PlanningDone ths)
  show ?thesis unfolding PlanningDone
    using userIds_updateLast_gen [of ms "\<lambda>m. m\<lparr> isPlanning := Some False, toolInUse := None, thoughts := Some ths \<rparr>"]
    by simp
next
  case (ThinkingTick t)
  show ?thesis unfolding ThinkingTick applyUpdate.simps by (rule userIds_updateLastModel) simp
next
  case (SearchPlanShown sp)
  show ?thesis unfolding SearchPlanShown applyUpdate.simps by (rule userIds_updateLastModel) simp
next
  case ImageAnalysisDone
  show ?thesis unfolding ImageAnalysisDone applyUpdate.simps by (rule userIds_map) simp
next
  case FileAnalysisDone
  show ?thesis unfolding FileAnalysisDone applyUpdate.simps by (rule userIds_map) simp
next
  case (StreamChunk d g n t)
  show ?thesis unfolding StreamChunk
    using userIds_updateLast_gen [of ms "\<lambda>m. m\<lparr> content := d, sources := g, isPlanning := Some False \<rparr>"]
    by (simp add: userIds_append) (simp add: userIds_def mkMessage_def)
next
  case (TokensAnnotated usage p used)
  show ?thesis unfolding TokensAnnotated
    using userIds_updateLast_gen [of ms "\<lambda>m. m\<lparr> inputTokens := Some (if used then totalPromptTokens usage else estimateTokens p),
                 outputTokens := candidatesTokenCount usage,
                 systemTokens := (if (if used then 0 else totalPromptTokens usage - estimateTokens p) > 0
                                  then Some (if used then 0 else totalPromptTokens usage - estimateTokens p)
                                  else None) \<rparr>"]
    by (simp add: annotateTokens_def Let_def)
next
  case MemoryUpdated
  show ?thesis unfolding MemoryUpdated applyUpdate.simps by (rule userIds_updateLastModel) simp
next
  case (ErrorShown f n t)
  show ?thesis unfolding ErrorShown
    using userIds_updateLast_gen [of ms "\<lambda>m. m\<lparr> isPlanning := Some False, toolInUse := None, content := errorText f \<rparr>"]
    by (simp add: userIds_append) (simp add: userIds_def mkMessage_def)
next
  case AnalysisFlagsCleared
  show ?thesis unfolding AnalysisFlagsCleared applyUpdate.simps
    by (rule userIds_map) (simp add: Let_def)
next
  case (GenerationTimeStamped t)
  show ?thesis unfolding GenerationTimeStamped
    using userIds_updateLast_gen [of ms "\<lambda>m. m\<lparr> generationTime := Some t \<rparr>"]
    by simp
next
  case (CancelUpdate n t)
  have strip: "userIds (map stripTransient ms) = userIds ms"
    by (rule userIds_map) (simp add: stripTransient_def)
  show ?thesis
  proof (cases "ms \<noteq> [] \<and> role (last ms) = Model")
    case True
    then have "cancelMessages n t ms = butlast (map stripTransient ms) @
        [(\<lambda>m. m\<lparr> content := (if js_trim (content (last ms)) \<noteq> []
            then js_trim (content (last ms)) @ ''\<newline>\<newline>'' @ stopNotice else stopNotice) \<rparr>)
          (last (map stripTransient ms))]"
      by (simp add: cancelMessages_last_model last_map)
    moreover have "userIds (butlast (map stripTransient ms) @
        [(\<lambda>m. m\<lparr> content := (if js_trim (content (last ms)) \<noteq> []
            then js_trim (content (last ms)) @ ''\<newline>\<newline>'' @ stopNotice else stopNotice) \<rparr>)
          (last (map stripTransient ms))]) = userIds (map stripTransient ms)"
      by (rule userIds_updateLast_gen) (use True in simp_all)
    ultimately show ?thesis unfolding CancelUpdate using strip by simp
  next
    case False
    then have "cancelMessages n t ms =
        map stripTransient ms @ [(mkMessage n Model stopNotice)\<lparr> timestamp := Some t \<rparr>]"
      by (simp add: cancelMessages_otherwise)
    then show ?thesis unfolding CancelUpdate using strip
      by (simp add: userIds_append) (simp add: userIds_def mkMessage_def)
  qed
qed

lemma userIds_trace:
  assumes "\<forall>u \<in> set us. laterUpdate u"
  shows "\<forall>s \<in> set (messageTrace us ms). userIds s = userIds ms"
  using assms
proof (induction us arbitrary: ms)
  case Nil
  then show ?case by simp
next
  case (Cons u us)
  from Cons.prems have "userIds (applyUpdate u ms) = userIds ms" by (simp add: userIds_applyUpdate)
  with Cons.IH [of "applyUpdate u ms"] Cons.prems show ?case by simp
qed

lemma handleSendMessage_found:
  assumes "\<not> sendRejected env args" and "activeConversationId env = Some cid" and "cid \<noteq> []"
    and "find (\<lambda>c. convId c = cid) (conversations env) = Some conv"
  shows "handleSendMessage env args w =
           runTurn env args w cid (length (messages conv) = 0) (messages conv)"
  using assms by (simp add: handleSendMessage_def truthyString_def)

text \<open>
  C9. For a conversation whose last model message is preceded by a user message, retrying
  cuts the message list back to that model message, excluding it and all that follows, and
  calls \<open>handleSendMessage\<close> with that user message's content, images, file and url and
  \<open>isRetry = true\<close>. From the cut on, no update of the turn adds or removes a user message;
  when the entry guard lets the call through, the update after the cut appends only the
  planning stub, so that the list is the kept prefix followed by the stub.
\<close>

theorem retry_truncates_and_resends:
  assumes active: "activeConversationId env = Some cid" "cid \<noteq> []"
    and found: "find (\<lambda>c. convId c = cid) (conversations env) = Some conv"
    and msgs: "messages conv = pre @ [u, m] @ post"
    and roles: "role u = User" "role m = Model" "\<forall>x \<in> set post. role x = User"
  shows "handleRetry env w =
           UpdateConversationMessages cid (SliceTo (length pre + 1)) #
           handleSendMessage env (resendArgs u) w \<and>
         resendArgs u =
           \<lparr> prompt = content u, argImages = images u, argFile = file' u, argUrl = url u,
             overrideModel = None, isRetry = True \<rparr> \<and>
         messageTrace (messageUpdates cid (handleRetry env w)) (messages conv) ! 1 = pre @ [u] \<and>
         (\<forall>ms \<in> set (drop 1 (messageTrace (messageUpdates cid (handleRetry env w)) (messages conv))).
            userIds ms = userIds (pre @ [u])) \<and>
         (\<not> sendRejected env (resendArgs u) \<longrightarrow>
            (\<exists>us. (\<forall>x \<in> set us. laterUpdate x) \<and>
               messageUpdates cid (handleRetry env w) =
                 SliceTo (length pre + 1) #
                 AppendPlanning (planningMessage env (resendArgs u) w) # us) \<and>
            messageTrace (messageUpdates cid (handleRetry env w)) (messages conv) ! 2 =
              pre @ [u, planningMessage env (resendArgs u) w])"
proof -
  have cid: "convId conv = cid"
    using found by (auto simp add: find_Some_iff)
  have find': "find (\<lambda>c. Some (convId c) = activeConversationId env) (conversations env) = Some conv"
    using found active(1) by simp
  have idx: "lastModelMessageIndex (messages conv) = Some (length pre + 1)"
    using lastModelMessageIndex_found [OF roles(2,3), of "pre @ [u]"] msgs by simp
  have at: "messages conv ! length pre = u"
    using msgs by (simp add: nth_append)
  have retry: "handleRetry env w =
           UpdateConversationMessages cid (SliceTo (length pre + 1)) #
           handleSendMessage env (resendArgs u) w"
    using find' idx at roles(1) cid by (simp add: handleRetry_def Let_def)
  have args: "resendArgs u =
      \<lparr> prompt = content u, argImages = images u, argFile = file' u, argUrl = url u,
        overrideModel = None, isRetry = True \<rparr>"
    by (simp add: resendArgs_def)
  have cut: "take (length pre + 1) (messages conv) = pre @ [u]"
    using msgs by simp
  have hd_trace: "messageTrace us ms ! 0 = ms" for us ms
    by (cases us) simp_all
  show ?thesis
  proof (cases "sendRejected env (resendArgs u)")
    case True
    then have none: "handleSendMessage env (resendArgs u) w = []"
      by (simp add: handleSendMessage_def)
    have tr: "messageTrace (messageUpdates cid (handleRetry env w)) (messages conv) =
        [messages conv, pre @ [u]]"
      unfolding retry none using cut by simp
    have "messageTrace (messageUpdates cid (handleRetry env w)) (messages conv) ! 1 = pre @ [u]"
      unfolding tr by simp
    moreover have "\<forall>ms \<in> set (drop 1 (messageTrace (messageUpdates cid (handleRetry env w))
        (messages conv))). userIds ms = userIds (pre @ [u])"
      unfolding tr by simp
    ultimately show ?thesis using retry args True by simp
  next
    case False
    have send: "handleSendMessage env (resendArgs u) w =
        runTurn env (resendArgs u) w cid (length (messages conv) = 0) (messages conv)"
      by (rule handleSendMessage_found [OF False active found])
    from messageUpdates_runTurn [of cid env "resendArgs u" w cid "length (messages conv) = 0"
        "messages conv"]
    obtain us where later: "\<forall>x \<in> set us. laterUpdate x"
      and run: "messageUpdates cid (runTurn env (resendArgs u) w cid (length (messages conv) = 0)
          (messages conv)) = appendForTurn env (resendArgs u) w # us"
      by auto
    have app: "appendForTurn env (resendArgs u) w =
        AppendPlanning (planningMessage env (resendArgs u) w)"
      by (simp add: appendForTurn_def resendArgs_def)
    have ups: "messageUpdates cid (handleRetry env w) =
        SliceTo (length pre + 1) # AppendPlanning (planningMessage env (resendArgs u) w) # us"
      unfolding retry send using run app by simp
    have tr: "messageTrace (messageUpdates cid (handleRetry env w)) (messages conv) =
        messages conv # (pre @ [u]) #
        messageTrace us (pre @ [u, planningMessage env (resendArgs u) w])"
      unfolding ups using cut by simp
    have t1: "messageTrace (messageUpdates cid (handleRetry env w)) (messages conv) ! 1 = pre @ [u]"
      unfolding tr by simp
    have t2: "messageTrace (messageUpdates cid (handleRetry env w)) (messages conv) ! 2 =
        pre @ [u, planningMessage env (resendArgs u) w]"
      unfolding tr using hd_trace by (simp add: numeral_2_eq_2)
    have stub: "userIds (pre @ [u, planningMessage env (resendArgs u) w]) = userIds (pre @ [u])"
      by (simp add: userIds_def planningMessage_def mkMessage_def)
    have users: "\<forall>ms \<in> set (drop 1 (messageTrace (messageUpdates cid (handleRetry env w))
        (messages conv))). userIds ms = userIds (pre @ [u])"
      unfolding tr
      using userIds_trace [OF later, of "pre @ [u, planningMessage env (resendArgs u) w]"] stub
      by simp
    from retry args later ups t1 t2 users show ?thesis by blast
  qed
qed

theorem retry_truncates_and_resends_witness:
  "handleRetry (exampleEnvWith (exchanges 1)) exampleWorld =
     UpdateConversationMessages ''conv-1'' (SliceTo 1) #
     handleSendMessage (exampleEnvWith (exchanges 1))
       \<lparr> prompt = ''question'', argImages = None, argFile = None, argUrl = None,
         overrideModel = None, isRetry = True \<rparr> exampleWorld \<and>
   \<not> sendRejected (exampleEnvWith (exchanges 1))
       \<lparr> prompt = ''question'', argImages = None, argFile = None, argUrl = None,
         overrideModel = None, isRetry = True \<rparr> \<and>
   messageTrace (messageUpdates ''conv-1'' (handleRetry (exampleEnvWith (exchanges 1)) exampleWorld))
       (exchanges 1) ! 2 =
     [mkMessage ''user-'' User ''question'',
      (mkMessage ''msg-model'' Model [])
        \<lparr> isPlanning := Some True, modelUsed := Some Gemini25Flash,
          timestamp := Some ''2025-01-01T00:00:00.000Z'' \<rparr>] \<and>
   userIds (messageTrace
       (messageUpdates ''conv-1'' (handleRetry (exampleEnvWith (exchanges 1)) exampleWorld))
       (exchanges 1) ! 2) = [''user-'']"
proof -
  let ?env = "exampleEnvWith (exchanges 1)"
  let ?u = "mkMessage ''user-'' User ''question''"
  let ?m = "mkMessage ''model-'' Model ''answer''"
  have active: "activeConversationId ?env = Some ''conv-1''" "''conv-1'' \<noteq> []"
    by (simp_all add: exampleEnvWith_def)
  have found: "find (\<lambda>c. convId c = ''conv-1'') (conversations ?env) =
      Some (exampleConversation (exchanges 1))"
    by (simp add: exampleEnvWith_def exampleConversation_def)
  have msgs: "messages (exampleConversation (exchanges 1)) = [] @ [?u, ?m] @ []"
    by (simp add: exampleConversation_def)
  have roles: "role ?u = User" "role ?m = Model" "\<forall>x \<in> set []. role x = User"
    by (simp_all add: mkMessage_def)
  have guard: "\<not> sendRejected ?env (resendArgs ?u)"
    by (simp add: sendRejected_def resendArgs_def exampleEnvWith_def exampleEnv_def mkMessage_def
        truthyString_def js_trim_def js_whitespace_def)
  have args: "resendArgs ?u =
      \<lparr> prompt = ''question'', argImages = None, argFile = None, argUrl = None,
        overrideModel = None, isRetry = True \<rparr>"
    by (simp add: resendArgs_def mkMessage_def)
  have stub: "planningMessage (exampleEnvWith ms)
      \<lparr> prompt = ''question'', argImages = None, argFile = None, argUrl = None,
        overrideModel = None, isRetry = True \<rparr> exampleWorld =
      (mkMessage ''msg-model'' Model [])
        \<lparr> isPlanning := Some True, modelUsed := Some Gemini25Flash,
          timestamp := Some ''2025-01-01T00:00:00.000Z'' \<rparr>" for ms
    by (simp add: planningMessage_def modelToUse_def exampleEnvWith_def
        exampleEnv_def exampleWorld_def)
  note inst = retry_truncates_and_resends [OF active found msgs roles, of exampleWorld]
  from inst have r1: "handleRetry ?env exampleWorld =
      UpdateConversationMessages ''conv-1'' (SliceTo (length ([]::ChatMessage list) + 1)) #
      handleSendMessage ?env (resendArgs ?u) exampleWorld"
    by blast
  from inst guard have r2: "messageTrace (messageUpdates ''conv-1'' (handleRetry ?env exampleWorld))
       (messages (exampleConversation (exchanges 1))) ! 2 =
      [] @ [?u, planningMessage ?env (resendArgs ?u) exampleWorld]"
    by blast
  have r3: "messageTrace (messageUpdates ''conv-1'' (handleRetry ?env exampleWorld))
       (exchanges 1) ! 2 =
      [mkMessage ''user-'' User ''question'',
       (mkMessage ''msg-model'' Model [])
         \<lparr> isPlanning := Some True, modelUsed := Some Gemini25Flash,
           timestamp := Some ''2025-01-01T00:00:00.000Z'' \<rparr>]"
    using r2 by (simp add: args stub exampleConversation_def)
  show ?thesis
  proof (intro conjI)
    show "handleRetry ?env exampleWorld =
      UpdateConversationMessages ''conv-1'' (SliceTo 1) #
      handleSendMessage ?env
        \<lparr> prompt = ''question'', argImages = None, argFile = None, argUrl = None,
          overrideModel = None, isRetry = True \<rparr> exampleWorld"
      using r1 by (simp add: args)
    show "\<not> sendRejected ?env
        \<lparr> prompt = ''question'', argImages = None, argFile = None, argUrl = None,
          overrideModel = None, isRetry = True \<rparr>"
      using guard by (simp add: args)
    show "messageTrace (messageUpdates ''conv-1'' (handleRetry ?env exampleWorld))
       (exchanges 1) ! 2 =
      [mkMessage ''user-'' User ''question'',
       (mkMessage ''msg-model'' Model [])
         \<lparr> isPlanning := Some True, modelUsed := Some Gemini25Flash,
           timestamp := Some ''2025-01-01T00:00:00.000Z'' \<rparr>]"
      by (rule r3)
    show "userIds (messageTrace (messageUpdates ''conv-1'' (handleRetry ?env exampleWorld))
       (exchanges 1) ! 2) = [''user-'']"
      unfolding r3 by (simp add: userIds_def mkMessage_def)
  qed
qed

section \<open>The summarizer's trigger\<close>

text \<open>
  C5 says that the summaries are requested exactly when the number of messages after the
  turn is a positive multiple of 20. The code evaluated on three runs that complete
  normally: on a conversation of 18 messages the turn leaves 20 messages and requests no
  summary; on a conversation of 20 messages it leaves 22 and requests the summaries of the
  20 earlier messages, with the serial numbers starting after the 0 summaries present; on
  a new conversation no summary is requested. \<open>finalConversationState\<close> is looked up in the
  \<open>conversations\<close> the handler closed over when it was invoked, which holds the messages
  from before the turn.
\<close>

theorem summaries_follow_captured_count:
  "length (exchanges 9) = 18 \<and>
   length (last (messageTrace
      (messageUpdates ''conv-1''
         (handleSendMessage (exampleEnvWith (exchanges 9)) exampleArgs exampleWorld))
      (exchanges 9))) = 20 \<and>
   summaryCalls (handleSendMessage (exampleEnvWith (exchanges 9)) exampleArgs exampleWorld) = [] \<and>
   length (last (messageTrace
      (messageUpdates ''conv-1''
         (handleSendMessage (exampleEnvWith (exchanges 10)) exampleArgs exampleWorld))
      (exchanges 10))) = 22 \<and>
   summaryCalls (handleSendMessage (exampleEnvWith (exchanges 10)) exampleArgs exampleWorld) =
     [GenerateConvoSummaries (pairUp (exchanges 10)) 0] \<and>
   summaryCalls (handleSendMessage exampleEnv exampleArgs exampleWorld) = []"
  by code_simp

section \<open>Runs that reach the stream\<close>

lemma fst_thenStep:
  "fst (thenStep m f) = fst m @ (case snd m of Continue a \<Rightarrow> fst (f a) | Return \<Rightarrow> [] | Throw e \<Rightarrow> [])"
  by (cases m; cases "snd m") (auto simp add: thenStep_def split: prod.splits)

lemma snd_thenStep:
  "snd (thenStep m f) =
     (case snd m of Continue a \<Rightarrow> snd (f a) | Return \<Rightarrow> Return | Throw e \<Rightarrow> Throw e)"
  by (cases m; cases "snd m") (auto simp add: thenStep_def split: prod.splits)

lemma messageTrace_last: "last (messageTrace us ms) = fold applyUpdate us ms"
proof (induction us arbitrary: ms)
  case Nil
  show ?case by simp
next
  case (Cons u us)
  have "messageTrace us (applyUpdate u ms) \<noteq> []" by (cases us) simp_all
  with Cons show ?case by simp
qed

lemma messagesAfter_trace:
  "last (messageTrace (messageUpdates cid es) ms) = messagesAfter cid es ms"
  by (simp add: messagesAfter_def messageTrace_last)

lemma messagesAfter_append:
  "messagesAfter cid (a @ b) ms = messagesAfter cid b (messagesAfter cid a ms)"
  by (simp add: messagesAfter_def messageUpdates_append)

lemma messagesAfter_none:
  assumes "\<And>u. UpdateConversationMessages cid u \<notin> set es"
  shows "messagesAfter cid es ms = ms"
  using messageUpdates_empty [of cid es] assms by (simp add: messagesAfter_def)

lemma handleSendMessage_turnOf:
  assumes "\<not> sendRejected env args" and "turnOf env w = Some (cid, first, hist)"
  shows "handleSendMessage env args w =
     (if truthyString (activeConversationId env) then []
      else [SetConversationsPrepend (newConversation w),
            SetActiveConversationId (newConversationId w)]) @
     runTurn env args w cid first hist"
  using assms
  by (auto simp add: handleSendMessage_def turnOf_def Let_def split: option.splits if_splits)

lemma messagesAfter_handleSendMessage:
  assumes "\<not> sendRejected env args" and "turnOf env w = Some (cid, first, hist)"
  shows "messagesAfter cid (handleSendMessage env args w) ms =
     messagesAfter cid (runTurn env args w cid first hist) ms"
  unfolding handleSendMessage_turnOf [OF assms] messagesAfter_append
  by (simp add: messagesAfter_def)

lemma streamOpenPhase_reach:
  assumes "userMessageParts args v \<noteq> []" and "streamOpenError w = None"
  shows "snd (streamOpenPhase env args w cid first hist v) = Continue v"
  using assms by (simp add: streamOpenPhase_def Let_def)

lemma tryBlock_reach:
  assumes "snd (beforeStream env args w cid) = Continue v"
    and "userMessageParts args v \<noteq> []" and "streamOpenError w = None"
  shows "fst (tryBlock env args w cid first hist) =
           fst (beforeStream env args w cid) @ fst (streamOpenPhase env args w cid first hist v) @
           fst (streamPhase env args w cid first v)"
    and "snd (tryBlock env args w cid first hist) = snd (streamPhase env args w cid first v)"
  using assms(1) streamOpenPhase_reach [OF assms(2,3), of env cid first hist]
  by (simp_all add: tryBlock_def fst_thenStep snd_thenStep)

lemma cancelDuring_none: "cancelAt w = None \<Longrightarrow> cancelDuring p cid w = []"
  by (simp add: cancelDuring_def)

lemma streamLoop_no_cancel:
  assumes "cancelAt w = None"
  shows "SetCancelledRef True \<notin> set (fst (streamLoop f cid w i cs st)) \<and>
         \<not> snd (snd (streamLoop f cid w i cs st))"
proof (induction cs arbitrary: i st)
  case Nil
  show ?case using assms by (simp add: cancelDuring_none)
next
  case (Cons c cs)
  obtain es st' where pc: "processChunk f cid w c st = (es, st')"
    by (cases "processChunk f cid w c st")
  obtain es' r where sl: "streamLoop f cid w (Suc i) cs st' = (es', r)"
    by (cases "streamLoop f cid w (Suc i) cs st'")
  have "SetCancelledRef True \<notin> set es"
    using processChunk_set [of "SetCancelledRef True" f cid w c st] pc by auto
  moreover from Cons [of "Suc i" st'] sl have "SetCancelledRef True \<notin> set es' \<and> \<not> snd r" by simp
  ultimately show ?case using assms pc sl by simp
qed

lemma beforeStream_no_cancel:
  assumes "cancelAt w = None"
  shows "SetCancelledRef True \<notin> set (fst (beforeStream env args w cid))"
proof
  assume "SetCancelledRef True \<in> set (fst (beforeStream env args w cid))"
  then show False
    apply (simp add: beforeStream_def in_thenStep)
    apply (elim disjE exE conjE)
    subgoal using assms by (auto simp add: planPhase_def Let_def cancelDuring_none split: if_splits)
    subgoal by (auto simp add: markPhase_def split: if_splits)
    subgoal using assms by (auto simp add: urlPhase_def handleToolError_def Let_def cancelDuring_none split: if_splits sum.splits)
    subgoal using assms by (auto simp add: moleculePhase_def Let_def cancelDuring_none split: if_splits sum.splits)
    subgoal by (auto simp add: preStreamPhase_def split: if_splits)
    subgoal using assms by (auto simp add: codePhase_def Let_def cancelDuring_none split: if_splits sum.splits)
    done
qed

lemma streamOpenPhase_no_cancel:
  assumes "cancelAt w = None"
  shows "SetCancelledRef True \<notin> set (fst (streamOpenPhase env args w cid f h v))"
  using assms by (auto simp add: streamOpenPhase_def Let_def cancelDuring_none split: option.splits)

text \<open>The stream phase of a run that is not cancelled: the loop, then lines 480-579.\<close>

lemma streamPhase_no_cancel:
  assumes "cancelAt w = None"
  shows "fst (streamPhase env args w cid f v) =
           fst (streamLoop f cid w 0 (chunks w) initialStreamState) @
           (if streamError w \<noteq> None then []
            else afterStream env args cid v
                   (fst (snd (streamLoop f cid w 0 (chunks w) initialStreamState))) False)"
    and "snd (streamPhase env args w cid f v) =
           (case streamError w of Some e \<Rightarrow> Throw e | None \<Rightarrow> Continue ())"
  using assms streamLoop_no_cancel [OF assms, of f cid 0 "chunks w" initialStreamState]
  by (auto simp add: streamPhase_def Let_def isCancelled_def split: option.splits)

lemma afterStream_no_cancel:
  "SetCancelledRef True \<notin> set (afterStream env args cid v st c)"
proof
  assume "SetCancelledRef True \<in> set (afterStream env args cid v st c)"
  from afterStream_set [OF this] show False by auto
qed

lemma tryBlock_no_cancel:
  assumes "cancelAt w = None"
  shows "\<not> isCancelled (fst (tryBlock env args w cid f h))"
proof
  assume "isCancelled (fst (tryBlock env args w cid f h))"
  then have "SetCancelledRef True \<in> set (fst (tryBlock env args w cid f h))"
    by (simp add: isCancelled_def)
  from in_tryBlock [OF this] show False
  proof (elim disjE exE conjE)
    assume "SetCancelledRef True \<in> set (fst (beforeStream env args w cid))"
    with beforeStream_no_cancel [OF assms] show False by simp
  next
    fix v assume "SetCancelledRef True \<in> set (fst (streamOpenPhase env args w cid f h v))"
    with streamOpenPhase_no_cancel [OF assms] show False by simp
  next
    fix v assume "SetCancelledRef True \<in> set (fst (streamPhase env args w cid f v))"
    then show False
      unfolding streamPhase_no_cancel(1) [OF assms]
      using streamLoop_no_cancel [OF assms, of f cid 0 "chunks w" initialStreamState]
        afterStream_no_cancel
      by (auto split: if_splits)
  qed
qed

text \<open>Every update after the first one keeps a model message at the end of the list.\<close>

lemma laterUpdate_ends_with_model:
  assumes "laterUpdate u" and "ms \<noteq> [] \<and> role (last ms) = Model"
  shows "applyUpdate u ms \<noteq> [] \<and> role (last (applyUpdate u ms)) = Model"
  using assms
  by (cases u)
     (auto simp add: updateLast_def updateLastModel_def updateSecondLastById_def last_map
        annotateTokens_def cancelMessages_def Let_def stripTransient_def mkMessage_def)

lemma messagesAfter_ends_with_model:
  assumes later: "\<And>u. UpdateConversationMessages cid u \<in> set es \<Longrightarrow> laterUpdate u"
    and ms: "ms \<noteq> [] \<and> role (last ms) = Model"
  shows "messagesAfter cid es ms \<noteq> [] \<and> role (last (messagesAfter cid es ms)) = Model"
proof -
  have "\<forall>u \<in> set us. laterUpdate u \<Longrightarrow> ms \<noteq> [] \<and> role (last ms) = Model \<Longrightarrow>
      fold applyUpdate us ms \<noteq> [] \<and> role (last (fold applyUpdate us ms)) = Model" for us ms
  proof (induction us arbitrary: ms)
    case Nil
    then show ?case by simp
  next
    case (Cons u us)
    from Cons.prems have "applyUpdate u ms \<noteq> [] \<and> role (last (applyUpdate u ms)) = Model"
      by (simp add: laterUpdate_ends_with_model)
    with Cons.IH [of "applyUpdate u ms"] Cons.prems show ?case by simp
  qed
  from this [of "messageUpdates cid es" ms] later ms show ?thesis
    by (simp add: messagesAfter_def set_messageUpdates)
qed

lemma appendForTurn_ends_with_model:
  "applyUpdate (appendForTurn env args w) ms0 \<noteq> [] \<and>
   role (last (applyUpdate (appendForTurn env args w) ms0)) = Model \<and>
   content (last (applyUpdate (appendForTurn env args w) ms0)) = []"
  by (simp add: appendForTurn_def planningMessage_def mkMessage_def)

lemma accumulated_Suc:
  "k < length cs \<Longrightarrow> accumulated cs (Suc k) = accumulated cs k @ chunkText (cs ! k)"
  by (simp add: accumulated_def take_Suc_conv_app_nth)

section \<open>Properties of the token accounting\<close>

lemma estimateTokens_ceiling: "estimateTokens text = \<lceil>real (length text) / 4\<rceil>"
  by (simp add: estimateTokens_def)

text \<open>The usage metadata the loop ends with is that of the last chunk which carries one.\<close>

lemma processChunk_usage:
  "usageMetadata (snd (processChunk f cid w c st)) =
     (case chunkUsage c of Some u \<Rightarrow> Some u | None \<Rightarrow> usageMetadata st)"
  by (simp add: processChunk_def Let_def)

lemma streamLoop_usage_kept:
  assumes "cancelAt w = None" and "\<forall>x \<in> set cs. chunkUsage x = None"
  shows "usageMetadata (fst (snd (streamLoop f cid w i cs st))) = usageMetadata st"
  using assms(2)
proof (induction cs arbitrary: i st)
  case Nil
  show ?case by simp
next
  case (Cons c cs)
  obtain es st' where pc: "processChunk f cid w c st = (es, st')"
    by (cases "processChunk f cid w c st")
  obtain es' r where sl: "streamLoop f cid w (Suc i) cs st' = (es', r)"
    by (cases "streamLoop f cid w (Suc i) cs st'")
  from processChunk_usage [of f cid w c st] pc Cons.prems
  have "usageMetadata st' = usageMetadata st" by simp
  moreover from Cons.IH [of "Suc i" st'] Cons.prems sl
  have "usageMetadata (fst r) = usageMetadata st'" by simp
  ultimately show ?case using assms(1) pc sl by simp
qed

lemma streamLoop_usage:
  assumes "cancelAt w = None" and "chunkUsage c = Some u" and "\<forall>x \<in> set cs'. chunkUsage x = None"
  shows "usageMetadata (fst (snd (streamLoop f cid w i (cs @ c # cs') st))) = Some u"
proof (induction cs arbitrary: i st)
  case Nil
  obtain es st' where pc: "processChunk f cid w c st = (es, st')"
    by (cases "processChunk f cid w c st")
  obtain es' r where sl: "streamLoop f cid w (Suc i) cs' st' = (es', r)"
    by (cases "streamLoop f cid w (Suc i) cs' st'")
  from processChunk_usage [of f cid w c st] pc assms(2)
  have "usageMetadata st' = Some u" by simp
  moreover from streamLoop_usage_kept [OF assms(1,3), of f cid "Suc i" st'] sl
  have "usageMetadata (fst r) = usageMetadata st'" by simp
  ultimately show ?case using assms(1) pc sl by simp
next
  case (Cons x cs)
  obtain es st' where pc: "processChunk f cid w x st = (es, st')"
    by (cases "processChunk f cid w x st")
  obtain es' r where sl: "streamLoop f cid w (Suc i) (cs @ c # cs') st' = (es', r)"
    by (cases "streamLoop f cid w (Suc i) (cs @ c # cs') st'")
  from Cons [of "Suc i" st'] sl have "usageMetadata (fst r) = Some u" by simp
  then show ?case using assms(1) pc sl by simp
qed

text \<open>The variables a run reaches the model call with, in terms of the routing.\<close>

lemma beforeStream_vars:
  assumes "snd (beforeStream env args w cid) = Continue v"
    and "r = routeTurn (selectedTool env) (planResponse (plannerJson w)) (prompt args)
               (argImages args) (argFile args)"
  shows "toolInUseVar v = (if isUrlReadRequest (plan r) then Some Url else None)"
    and "isImageAnalysisRequest v = hasImages (argImages args)"
    and "isFileAnalysisRequest v = (argFile args \<noteq> None)"
    and "isWebSearchEnabled v = (isWebSearchEnabled r \<and> \<not> planIsMoleculeRequest (plan r))"
proof -
  from beforeStream_Continue [OF assms(1)] assms(2) obtain u where
    u: "snd (urlPhase args w cid r) = Continue u" and m: "snd (moleculePhase args w cid u) = Continue v"
    by auto
  have r0: "toolInUseVar r = None" "isImageAnalysisRequest r = hasImages (argImages args)"
    "isFileAnalysisRequest r = (argFile args \<noteq> None)"
    unfolding assms(2)
    by (cases "selectedTool env"; simp add: routeTurn_def initialVars_def Let_def)+
  from urlPhase_Continue [OF u]
  have u': "toolInUseVar u = (if isUrlReadRequest (plan r) then Some Url else None)"
    "isImageAnalysisRequest u = isImageAnalysisRequest r"
    "isFileAnalysisRequest u = isFileAnalysisRequest r"
    "isWebSearchEnabled u = isWebSearchEnabled r" "plan u = plan r"
    using r0(1) by (auto split: if_splits)
  from moleculePhase_Continue [OF m]
  have v': "toolInUseVar v = toolInUseVar u" "isImageAnalysisRequest v = isImageAnalysisRequest u"
    "isFileAnalysisRequest v = isFileAnalysisRequest u"
    "isWebSearchEnabled v = (isWebSearchEnabled u \<and> \<not> planIsMoleculeRequest (plan u))"
    by (auto split: if_splits)
  show "toolInUseVar v = (if isUrlReadRequest (plan r) then Some Url else None)"
    using u' v' by simp
  show "isImageAnalysisRequest v = hasImages (argImages args)" using u' v' r0 by simp
  show "isFileAnalysisRequest v = (argFile args \<noteq> None)" using u' v' r0 by simp
  show "isWebSearchEnabled v = (isWebSearchEnabled r \<and> \<not> planIsMoleculeRequest (plan r))"
    using u' v' by simp
qed

lemma messagesAfter_afterStream:
  assumes "usageMetadata st = Some u"
  shows "afterStream env args cid v st False =
           UpdateConversationMessages cid
             (TokensAnnotated u (prompt args)
                (toolUsed (toolInUseVar v) (isImageAnalysisRequest v) (isFileAnalysisRequest v)
                   (isWebSearchEnabled v))) # tl (afterStream env args cid v st False)"
    and "messagesAfter cid (afterStream env args cid v st False) ms =
           annotateTokens u (prompt args)
             (toolUsed (toolInUseVar v) (isImageAnalysisRequest v) (isFileAnalysisRequest v)
                (isWebSearchEnabled v)) ms"
proof -
  let ?rest = "(let finalCleanedResponse = stripTitle (finalModelResponse st) in
      case find (\<lambda>c. convId c = cid) (conversations env) of
        Some finalConversationState \<Rightarrow>
          if \<not> False
          then summaryEffects finalConversationState @
               (if js_trim finalCleanedResponse \<noteq> []
                then [Call (UpdateMemory (prompt args) finalCleanedResponse)] else [])
          else []
      | None \<Rightarrow> [])"
  have eq: "afterStream env args cid v st False =
      UpdateConversationMessages cid
        (TokensAnnotated u (prompt args)
           (toolUsed (toolInUseVar v) (isImageAnalysisRequest v) (isFileAnalysisRequest v)
              (isWebSearchEnabled v))) # ?rest"
    using assms by (simp add: afterStream_def)
  show "afterStream env args cid v st False =
           UpdateConversationMessages cid
             (TokensAnnotated u (prompt args)
                (toolUsed (toolInUseVar v) (isImageAnalysisRequest v) (isFileAnalysisRequest v)
                   (isWebSearchEnabled v))) # tl (afterStream env args cid v st False)"
    by (subst eq) (simp add: eq)
  have none: "UpdateConversationMessages cid x \<notin> set ?rest" for x
    by (auto simp add: Let_def dest!: summaryEffects_set split: option.splits if_splits)
  have "messagesAfter cid ?rest ms' = ms'" for ms'
    by (rule messagesAfter_none) (rule none)
  then show "messagesAfter cid (afterStream env args cid v st False) ms =
           annotateTokens u (prompt args)
             (toolUsed (toolInUseVar v) (isImageAnalysisRequest v) (isFileAnalysisRequest v)
                (isWebSearchEnabled v)) ms"
    unfolding eq by (simp add: messagesAfter_def)
qed

lemma annotateTokens_fields:
  assumes "prev \<noteq> [] \<and> role (last prev) = Model"
  shows "annotateTokens usage fullPrompt used prev \<noteq> [] \<and>
         role (last (annotateTokens usage fullPrompt used prev)) = Model \<and>
         inputTokens (last (annotateTokens usage fullPrompt used prev)) =
           Some (if used then totalPromptTokens usage else \<lceil>real (length fullPrompt) / 4\<rceil>) \<and>
         outputTokens (last (annotateTokens usage fullPrompt used prev)) =
           candidatesTokenCount usage \<and>
         systemTokens (last (annotateTokens usage fullPrompt used prev)) =
           (if \<not> used \<and> totalPromptTokens usage - \<lceil>real (length fullPrompt) / 4\<rceil> > 0
            then Some (totalPromptTokens usage - \<lceil>real (length fullPrompt) / 4\<rceil>)
            else None)"
  using assms by (auto simp add: annotateTokens_def estimateTokens_ceiling Let_def)

text \<open>The two updates of the \<open>finally\<close> block leave the token fields of the last message.\<close>

lemma messagesAfter_finallyBlock:
  assumes "\<not> isCancelled body" and "ms \<noteq> []"
  shows "messagesAfter cid (finallyBlock w cid body) ms \<noteq> [] \<and>
         role (last (messagesAfter cid (finallyBlock w cid body) ms)) = role (last ms) \<and>
         inputTokens (last (messagesAfter cid (finallyBlock w cid body) ms)) = inputTokens (last ms) \<and>
         outputTokens (last (messagesAfter cid (finallyBlock w cid body) ms)) = outputTokens (last ms) \<and>
         systemTokens (last (messagesAfter cid (finallyBlock w cid body) ms)) = systemTokens (last ms)"
  using assms
  by (auto simp add: finallyBlock_def messagesAfter_def last_map Let_def)

text \<open>
  C4. Take a run of \<open>handleSendMessage\<close> that gets past the entry guard, reaches the model
  call, and completes normally: the stream opens, ends without an error, and no
  cancellation arrives. If some chunk carried usage metadata, let \<open>usage\<close> be that of the
  last such chunk. Then the handler issues the update of lines 480-503 with the prompt as
  typed and the flag \<open>toolUsed\<close>, which is true exactly when the URL tool ran, an image or a
  file is attached, or web search was on at the model call; and in the message list the run
  ends with, the last message is the model message and has \<open>inputTokens\<close> equal to the total
  prompt tokens if a tool was used and to the ceiling of a quarter of the prompt's length
  otherwise, \<open>outputTokens\<close> equal to \<open>candidatesTokenCount\<close>, and \<open>systemTokens\<close> equal to
  the total minus that estimate when no tool was used and the difference is positive,
  absent otherwise.
\<close>

theorem token_accounting:
  assumes turn: "\<not> sendRejected env args" "turnOf env w = Some (cid, first, hist)"
    and reach: "snd (beforeStream env args w cid) = Continue v" "userMessageParts args v \<noteq> []"
    and normal: "streamOpenError w = None" "streamError w = None" "cancelAt w = None"
    and usage: "chunks w = cs @ c # cs'" "chunkUsage c = Some usage"
               "\<forall>x \<in> set cs'. chunkUsage x = None"
    and r: "r = routeTurn (selectedTool env) (planResponse (plannerJson w)) (prompt args)
                  (argImages args) (argFile args)"
    and used: "used \<longleftrightarrow> isUrlReadRequest (plan r) \<or> hasImages (argImages args) \<or>
                 argFile args \<noteq> None \<or>
                 (isWebSearchEnabled r \<and> \<not> planIsMoleculeRequest (plan r))"
    and F: "F = last (messageTrace (messageUpdates cid (handleSendMessage env args w)) ms0)"
  shows "UpdateConversationMessages cid (TokensAnnotated usage (prompt args) used)
           \<in> set (handleSendMessage env args w) \<and>
         F \<noteq> [] \<and> role (last F) = Model \<and>
         inputTokens (last F) =
           Some (if used then totalPromptTokens usage else \<lceil>real (length (prompt args)) / 4\<rceil>) \<and>
         outputTokens (last F) = candidatesTokenCount usage \<and>
         systemTokens (last F) =
           (if \<not> used \<and> totalPromptTokens usage - \<lceil>real (length (prompt args)) / 4\<rceil> > 0
            then Some (totalPromptTokens usage - \<lceil>real (length (prompt args)) / 4\<rceil>)
            else None)"
proof -
  let ?B = "fst (beforeStream env args w cid)"
  let ?O = "fst (streamOpenPhase env args w cid first hist v)"
  let ?L = "fst (streamLoop first cid w 0 (chunks w) initialStreamState)"
  let ?st = "fst (snd (streamLoop first cid w 0 (chunks w) initialStreamState))"
  let ?A = "afterStream env args cid v ?st False"
  let ?body = "tryBlock env args w cid first hist"
  let ?ms1 = "applyUpdate (appendForTurn env args w) ms0"
  have st: "usageMetadata ?st = Some usage"
    unfolding usage(1) by (rule streamLoop_usage [OF normal(3) usage(2,3)])
  have flag: "toolUsed (toolInUseVar v) (isImageAnalysisRequest v) (isFileAnalysisRequest v)
      (isWebSearchEnabled v) = used"
    using beforeStream_vars [OF reach(1) r] used by (auto simp add: toolUsed_def)
  have S: "fst (streamPhase env args w cid first v) = ?L @ ?A"
    "snd (streamPhase env args w cid first v) = Continue ()"
    using streamPhase_no_cancel [OF normal(3), of env args cid first v] normal(2) by simp_all
  have body: "fst ?body = ?B @ ?O @ ?L @ ?A" "snd ?body = Continue ()"
    using tryBlock_reach [OF reach normal(1), of first hist] S by simp_all
  have nc: "\<not> isCancelled (fst ?body)" by (rule tryBlock_no_cancel [OF normal(3)])
  have run: "runTurn env args w cid first hist =
      [SetError None, SetIsLoading True, SetCancelledRef False, StartResponseTimer,
       UpdateConversationMessages cid (appendForTurn env args w)] @
      ?B @ ?O @ ?L @ ?A @ finallyBlock w cid (fst ?body)"
    unfolding runTurn_def Let_def body(2) by (simp add: catchBlock_def body(1))
  have A: "?A = UpdateConversationMessages cid (TokensAnnotated usage (prompt args) used) # tl ?A"
    using messagesAfter_afterStream(1) [OF st, of env args cid v] flag by simp
  have "UpdateConversationMessages cid (TokensAnnotated usage (prompt args) used) \<in> set ?A"
    by (subst A) simp
  then have mem: "UpdateConversationMessages cid (TokensAnnotated usage (prompt args) used)
      \<in> set (handleSendMessage env args w)"
    unfolding handleSendMessage_turnOf [OF turn] run by simp
  let ?M = "messagesAfter cid (?B @ ?O @ ?L) ?ms1"
  have later: "laterUpdate u" if "UpdateConversationMessages cid u \<in> set (?B @ ?O @ ?L)" for u
  proof -
    from that have "UpdateConversationMessages cid u \<in> set (fst ?body)"
      unfolding body(1) by auto
    from tryBlock_later [OF this] show ?thesis by simp
  qed
  have M: "?M \<noteq> [] \<and> role (last ?M) = Model"
    by (rule messagesAfter_ends_with_model [OF later]) (simp_all add: appendForTurn_ends_with_model)
  let ?T = "annotateTokens usage (prompt args) used ?M"
  have T: "messagesAfter cid ?A ?M = ?T"
    using messagesAfter_afterStream(2) [OF st] flag by simp
  have Feq: "F = messagesAfter cid (finallyBlock w cid (fst ?body)) ?T"
  proof -
    have "F = messagesAfter cid (runTurn env args w cid first hist) ms0"
      unfolding F messagesAfter_trace by (rule messagesAfter_handleSendMessage [OF turn])
    also have "\<dots> = messagesAfter cid (finallyBlock w cid (fst ?body))
        (messagesAfter cid ?A (messagesAfter cid (?B @ ?O @ ?L) ?ms1))"
      unfolding run by (simp add: messagesAfter_def messageUpdates_append)
    finally show ?thesis unfolding T .
  qed
  note fields = annotateTokens_fields [OF M, of usage "prompt args" used]
  from fields have Tne: "?T \<noteq> []" by simp
  note fin = messagesAfter_finallyBlock [OF nc Tne, of cid w]
  from mem fields fin show ?thesis unfolding Feq by simp
qed

theorem token_accounting_witness:
  "\<not> sendRejected exampleEnv (exampleArgs\<lparr> prompt := replicate 400 (CHR ''a'') \<rparr>) \<and>
   turnOf exampleEnv exampleWorld = Some (''conv-new'', True, []) \<and>
   streamOpenError exampleWorld = None \<and> streamError exampleWorld = None \<and>
   cancelAt exampleWorld = None \<and>
   inputTokens (last (last (messageTrace (messageUpdates ''conv-new''
     (handleSendMessage exampleEnv (exampleArgs\<lparr> prompt := replicate 400 (CHR ''a'') \<rparr>)
        (exampleWorld\<lparr> chunks :=
           [\<lparr> chunkText = ''Hello'',
              chunkUsage = Some \<lparr> promptTokenCount = Some 300, candidatesTokenCount = Some 42 \<rparr>,
              groundingChunks = None \<rparr>] \<rparr>))) []))) = Some 100 \<and>
   outputTokens (last (last (messageTrace (messageUpdates ''conv-new''
     (handleSendMessage exampleEnv (exampleArgs\<lparr> prompt := replicate 400 (CHR ''a'') \<rparr>)
        (exampleWorld\<lparr> chunks :=
           [\<lparr> chunkText = ''Hello'',
              chunkUsage = Some \<lparr> promptTokenCount = Some 300, candidatesTokenCount = Some 42 \<rparr>,
              groundingChunks = None \<rparr>] \<rparr>))) []))) = Some 42 \<and>
   systemTokens (last (last (messageTrace (messageUpdates ''conv-new''
     (handleSendMessage exampleEnv (exampleArgs\<lparr> prompt := replicate 400 (CHR ''a'') \<rparr>)
        (exampleWorld\<lparr> chunks :=
           [\<lparr> chunkText = ''Hello'',
              chunkUsage = Some \<lparr> promptTokenCount = Some 300, candidatesTokenCount = Some 42 \<rparr>,
              groundingChunks = None \<rparr>] \<rparr>))) []))) = Some 200"
proof -
  let ?args = "exampleArgs\<lparr> prompt := replicate 400 (CHR ''a'') \<rparr>"
  let ?u = "\<lparr> promptTokenCount = Some 300, candidatesTokenCount = Some 42 \<rparr>"
  let ?c = "\<lparr> chunkText = ''Hello'', chunkUsage = Some ?u, groundingChunks = None \<rparr>"
  let ?w = "exampleWorld\<lparr> chunks := [?c] \<rparr>"
  let ?r = "routeTurn (selectedTool exampleEnv) (planResponse (plannerJson ?w)) (prompt ?args)
              (argImages ?args) (argFile ?args)"
  have guard: "\<not> sendRejected exampleEnv ?args"
    by (simp add: sendRejected_def example_defs truthyString_def js_trim_def js_whitespace_def)
  have turn: "turnOf exampleEnv ?w = Some (''conv-new'', True, [])"
    "turnOf exampleEnv exampleWorld = Some (''conv-new'', True, [])"
    by (simp_all add: turnOf_def example_defs truthyString_def)
  obtain v where v: "snd (beforeStream exampleEnv ?args ?w ''conv-new'') = Continue v"
    and parts: "userMessageParts ?args v \<noteq> []"
    by (simp add: eval_defs)
  have normal: "streamOpenError ?w = None" "streamError ?w = None" "cancelAt ?w = None"
    by (simp_all add: exampleWorld_def)
  have usage: "chunks ?w = [] @ ?c # []" "chunkUsage ?c = Some ?u"
    "\<forall>x \<in> set []. chunkUsage x = None"
    by simp_all
  have used: "False \<longleftrightarrow> isUrlReadRequest (plan ?r) \<or> hasImages (argImages ?args) \<or>
      argFile ?args \<noteq> None \<or> (isWebSearchEnabled ?r \<and> \<not> planIsMoleculeRequest (plan ?r))"
    by (simp add: eval_defs)
  from token_accounting [OF guard turn(1) v parts normal usage refl used refl, of "[]"]
  show ?thesis using guard turn(2) by (simp add: totalPromptTokens_def exampleWorld_def)
qed

section \<open>The title extraction along a first turn\<close>

lemma accumulated_prefix:
  assumes "j \<le> k"
  shows "\<exists>z. accumulated cs k = accumulated cs j @ z"
proof -
  have "take j (take k cs) = take j cs" using assms by (simp add: min_def)
  with append_take_drop_id [of j "take k cs"]
  have "take k cs = take j cs @ drop j (take k cs)" by simp
  then have "accumulated cs k = accumulated cs j @ concat (map chunkText (drop j (take k cs)))"
    unfolding accumulated_def by (metis concat_append map_append)
  then show ?thesis by blast
qed

lemma list_ex_upt_Suc:
  "list_ex P [1..<Suc (Suc i)] \<longleftrightarrow> list_ex P [1..<Suc i] \<or> P (Suc i)"
  by (simp add: list_ex_iff) (metis atLeastLessThan_iff le_SucE le_SucI less_Suc_eq_le not_less_eq_eq)

text \<open>
  One step of the loop on a first turn, from the state that the chunks before it leave:
  its effects are \<open>chunkEffects\<close>, and the flag \<open>titleExtracted\<close> says whether the
  extraction is over.
\<close>

lemma processChunk_first:
  assumes i: "i < length (chunks w)"
    and acc: "finalModelResponse st = accumulated (chunks w) i"
    and ext: "titleExtracted st = list_ex (\<lambda>j. extractionOver (accumulated (chunks w) j)) [1..<Suc i]"
  shows "fst (processChunk True cid w (chunks w ! i) st) = chunkEffects cid w i"
    and "finalModelResponse (snd (processChunk True cid w (chunks w ! i) st)) =
           accumulated (chunks w) (Suc i)"
    and "titleExtracted (snd (processChunk True cid w (chunks w ! i) st)) =
           list_ex (\<lambda>j. extractionOver (accumulated (chunks w) j)) [1..<Suc (Suc i)]"
proof -
  have a: "finalModelResponse st @ chunkText (chunks w ! i) = accumulated (chunks w) (Suc i)"
    using accumulated_Suc [OF i] acc by simp
  define X where "X = list_ex (\<lambda>j. extractionOver (accumulated (chunks w) j)) [1..<Suc i]"
  note ext' = ext [folded X_def]
  show "fst (processChunk True cid w (chunks w ! i) st) = chunkEffects cid w i"
    unfolding processChunk_def Let_def a chunkEffects_def titleStep_def X_def [symmetric]
    using ext' by (auto split: option.splits)
  show "finalModelResponse (snd (processChunk True cid w (chunks w ! i) st)) =
           accumulated (chunks w) (Suc i)"
    unfolding processChunk_def Let_def a by simp
  have "titleExtracted (snd (processChunk True cid w (chunks w ! i) st)) =
      (X \<or> extractionOver (accumulated (chunks w) (Suc i)))"
    unfolding processChunk_def Let_def a
    using ext' by (auto simp add: extractionOver_def split: option.splits)
  then show "titleExtracted (snd (processChunk True cid w (chunks w ! i) st)) =
           list_ex (\<lambda>j. extractionOver (accumulated (chunks w) j)) [1..<Suc (Suc i)]"
    unfolding list_ex_upt_Suc X_def .
qed

lemma streamLoop_first:
  assumes nc: "cancelAt w = None"
  shows "n = length (chunks w) - i \<Longrightarrow> i \<le> length (chunks w) \<Longrightarrow>
     finalModelResponse st = accumulated (chunks w) i \<Longrightarrow>
     titleExtracted st = list_ex (\<lambda>j. extractionOver (accumulated (chunks w) j)) [1..<Suc i] \<Longrightarrow>
     fst (streamLoop True cid w i (drop i (chunks w)) st) =
       concat (map (chunkEffects cid w) [i..<length (chunks w)])"
proof (induction n arbitrary: i st)
  case 0
  then show ?case using nc by (simp add: cancelDuring_none)
next
  case (Suc n)
  then have i: "i < length (chunks w)" by simp
  let ?c = "chunks w ! i"
  obtain es st' where pc: "processChunk True cid w ?c st = (es, st')"
    by (cases "processChunk True cid w ?c st")
  obtain es' r where sl: "streamLoop True cid w (Suc i) (drop (Suc i) (chunks w)) st' = (es', r)"
    by (cases "streamLoop True cid w (Suc i) (drop (Suc i) (chunks w)) st'")
  from processChunk_first [OF i Suc.prems(3,4), of cid] pc
  have es: "es = chunkEffects cid w i"
    and st': "finalModelResponse st' = accumulated (chunks w) (Suc i)"
      "titleExtracted st' = list_ex (\<lambda>j. extractionOver (accumulated (chunks w) j)) [1..<Suc (Suc i)]"
    by simp_all
  have "fst (streamLoop True cid w (Suc i) (drop (Suc i) (chunks w)) st') =
      concat (map (chunkEffects cid w) [Suc i..<length (chunks w)])"
    by (rule Suc.IH) (use Suc.prems i st' in simp_all)
  with sl have es': "es' = concat (map (chunkEffects cid w) [Suc i..<length (chunks w)])" by simp
  have d: "drop i (chunks w) = ?c # drop (Suc i) (chunks w)"
    using i by (simp add: Cons_nth_drop_Suc)
  have u: "[i..<length (chunks w)] = i # [Suc i..<length (chunks w)]"
    using i by (simp add: upt_conv_Cons)
  show ?case unfolding d u using nc pc sl es es' by simp
qed

lemma streamLoop_first_turn:
  assumes "cancelAt w = None"
  shows "fst (streamLoop True cid w 0 (chunks w) initialStreamState) =
           concat (map (chunkEffects cid w) [0..<length (chunks w)])"
  using streamLoop_first [OF assms, of "length (chunks w)" 0 initialStreamState cid]
  by (simp add: initialStreamState_def accumulated_def)

lemma no_title_beforeStream:
  "UpdateConversation c x \<notin> set (fst (beforeStream env args w cid))"
proof
  assume "UpdateConversation c x \<in> set (fst (beforeStream env args w cid))"
  then show False
    apply (simp add: beforeStream_def in_thenStep)
    apply (elim disjE exE conjE)
    subgoal by (auto dest!: planPhase_set cancelDuring_set)
    subgoal by (auto simp add: markPhase_def split: if_splits)
    subgoal by (auto simp add: urlPhase_def handleToolError_def Let_def dest!: cancelDuring_set split: if_splits sum.splits)
    subgoal by (auto simp add: moleculePhase_def Let_def dest!: cancelDuring_set split: if_splits sum.splits)
    subgoal by (auto simp add: preStreamPhase_def split: if_splits)
    subgoal by (auto simp add: codePhase_def Let_def dest!: cancelDuring_set split: if_splits sum.splits)
    done
qed

lemma no_title_streamOpenPhase:
  "UpdateConversation c x \<notin> set (fst (streamOpenPhase env args w cid f h v))"
proof
  assume "UpdateConversation c x \<in> set (fst (streamOpenPhase env args w cid f h v))"
  from streamOpenPhase_set [OF this] show False by (auto dest!: cancelDuring_set)
qed

lemma no_title_afterStream:
  "UpdateConversation c x \<notin> set (afterStream env args cid v st b)"
proof
  assume "UpdateConversation c x \<in> set (afterStream env args cid v st b)"
  from afterStream_set [OF this] show False by auto
qed

lemma no_title_catch_finally:
  "UpdateConversation c x \<notin> set (catchBlock w cid body exit)"
  "UpdateConversation c x \<notin> set (finallyBlock w cid body)"
  by (auto simp add: catchBlock_def finallyBlock_def split: Step.splits if_splits)

lemma messageUpdates_title: "messageUpdates cid (map (UpdateConversation c) xs) = []"
  by (induction xs) simp_all

lemma messagesAfter_chunkEffects:
  "content (last (messagesAfter cid (A @ chunkEffects cid w k) ms)) =
     stripTitle (accumulated (chunks w) (Suc k))"
  by (simp add: messagesAfter_def messageUpdates_append chunkEffects_def messageUpdates_title
      mkMessage_def)

text \<open>
  The chunk that completes the title line, when no earlier accumulated text contains a
  line feed.
\<close>

lemma titleStep_complete_line:
  assumes acc: "accumulated cs (Suc k) = ''TITLE:'' @ ws @ t @ CHR 0x0A # body"
    and ws: "\<forall>x \<in> set ws. js_whitespace x"
    and t: "t \<noteq> []" "\<not> js_whitespace (hd t)" "CHR 0x0A \<notin> set t"
    and before: "CHR 0x0A \<notin> set (accumulated cs k)"
  shows "titleStep cs k = [SetTitle (js_trim t)]"
    and "stripTitle (accumulated cs (Suc k)) = body"
proof -
  have line: "titleMatch (accumulated cs (Suc k)) = Some t"
    "stripTitle (accumulated cs (Suc k)) = body"
    unfolding acc using title_line [of "[]" ws t body] ws t by simp_all
  have notover: "\<not> extractionOver (accumulated cs j)" if j: "j \<le> k" for j
  proof -
    from accumulated_prefix [OF j] obtain z where z: "accumulated cs k = accumulated cs j @ z"
      by blast
    from accumulated_prefix [of k "Suc k" cs] obtain z' where
      z': "accumulated cs (Suc k) = accumulated cs k @ z'" by auto
    from z before have nl: "CHR 0x0A \<notin> set (accumulated cs j)" by simp
    have pre: "''TITLE:'' @ ws @ t @ CHR 0x0A # body = accumulated cs j @ z @ z'"
      using acc z z' by simp
    have six: "take 6 (accumulated cs j) = ''TITLE:''" if "length (accumulated cs j) > 50"
    proof -
      from that have "6 \<le> length (accumulated cs j)" by simp
      then have e1: "take 6 (accumulated cs j @ z @ z') = take 6 (accumulated cs j)"
        by simp
      have e2: "take 6 (''TITLE:'' @ ws @ t @ CHR 0x0A # body) = ''TITLE:''" by simp
      from arg_cong [OF pre, of "take 6"] have "''TITLE:'' = take 6 (accumulated cs j)"
        unfolding e1 e2 .
      then show ?thesis by simp
    qed
    show ?thesis using nl six by (auto simp add: extractionOver_def split: option.splits)
  qed
  have "\<not> list_ex (\<lambda>j. extractionOver (accumulated cs j)) [1..<Suc k]"
    using notover by (auto simp add: list_ex_iff)
  then show "titleStep cs k = [SetTitle (js_trim t)]"
    by (simp add: titleStep_def line(1))
  show "stripTitle (accumulated cs (Suc k)) = body" by (rule line(2))
qed

text \<open>
  C8. Take a first turn of a conversation that gets past the entry guard and reaches the
  stream, with no cancellation. The effects of the run are then: the effects before the
  stream, none of which touches the conversation's title; for each chunk in turn, the
  title step of that chunk followed by the update that writes the accumulated text with
  the \<open>TITLE:\<close> line stripped to the in-flight message; and the effects after the stream,
  none of which touches the title. So a title is committed in the step of the very chunk
  whose accumulated text matches, before the next chunk is read and whether or not the
  stream later ends well; after each chunk the in-flight message shows the stripped text.
  As long as the extraction is not over, a matching accumulated text commits its trimmed
  title; once an accumulated text has matched and contains a line feed, no later chunk
  touches the title. For the chunk that completes the title line (\<open>TITLE:\<close>, whitespace,
  a title, a line feed), when no line feed came earlier, the title committed is the
  trimmed title and the text shown is what follows the line feed.
\<close>

theorem title_extraction_first_turn:
  assumes turn: "\<not> sendRejected env args" "turnOf env w = Some (cid, True, hist)"
    and reach: "snd (beforeStream env args w cid) = Continue v" "userMessageParts args v \<noteq> []"
               "streamOpenError w = None"
    and nocancel: "cancelAt w = None"
  shows "(\<exists>A B.
            handleSendMessage env args w =
              A @ concat (map (chunkEffects cid w) [0..<length (chunks w)]) @ B \<and>
            (\<forall>x. UpdateConversation cid x \<notin> set A) \<and>
            (\<forall>x. UpdateConversation cid x \<notin> set B) \<and>
            (\<forall>k < length (chunks w).
               content (last (last (messageTrace
                 (messageUpdates cid (A @ concat (map (chunkEffects cid w) [0..<Suc k]))) ms0))) =
               stripTitle (accumulated (chunks w) (Suc k)))) \<and>
         (\<forall>k g. \<not> list_ex (\<lambda>j. extractionOver (accumulated (chunks w) j)) [1..<Suc k] \<and>
                 titleMatch (accumulated (chunks w) (Suc k)) = Some g \<longrightarrow>
                 titleStep (chunks w) k = [SetTitle (js_trim g)]) \<and>
         (\<forall>j k. 1 \<le> j \<and> j \<le> k \<and> titleMatch (accumulated (chunks w) j) \<noteq> None \<and>
                 CHR 0x0A \<in> set (accumulated (chunks w) j) \<longrightarrow>
                 titleStep (chunks w) k = []) \<and>
         (\<forall>k ws t body.
            accumulated (chunks w) (Suc k) = ''TITLE:'' @ ws @ t @ CHR 0x0A # body \<and>
            (\<forall>x \<in> set ws. js_whitespace x) \<and> t \<noteq> [] \<and> \<not> js_whitespace (hd t) \<and>
            CHR 0x0A \<notin> set t \<and> CHR 0x0A \<notin> set (accumulated (chunks w) k) \<longrightarrow>
            titleStep (chunks w) k = [SetTitle (js_trim t)] \<and>
            stripTitle (accumulated (chunks w) (Suc k)) = body)"
proof -
  let ?pre = "(if truthyString (activeConversationId env) then []
      else [SetConversationsPrepend (newConversation w),
            SetActiveConversationId (newConversationId w)])"
  let ?H = "[SetError None, SetIsLoading True, SetCancelledRef False, StartResponseTimer,
       UpdateConversationMessages cid (appendForTurn env args w)]"
  let ?B = "fst (beforeStream env args w cid)"
  let ?O = "fst (streamOpenPhase env args w cid True hist v)"
  let ?L = "concat (map (chunkEffects cid w) [0..<length (chunks w)])"
  let ?st = "fst (snd (streamLoop True cid w 0 (chunks w) initialStreamState))"
  let ?X = "(if streamError w \<noteq> None then [] else afterStream env args cid v ?st False)"
  let ?body = "tryBlock env args w cid True hist"
  let ?A = "?pre @ ?H @ ?B @ ?O"
  let ?R = "?X @ catchBlock w cid (fst ?body) (snd ?body) @ finallyBlock w cid (fst ?body)"
  have S: "fst (streamPhase env args w cid True v) = ?L @ ?X"
    using streamPhase_no_cancel(1) [OF nocancel, of env args cid True v]
    unfolding streamLoop_first_turn [OF nocancel] .
  have body: "fst ?body = ?B @ ?O @ ?L @ ?X"
    using tryBlock_reach(1) [OF reach, of True hist] S by simp
  have eq: "handleSendMessage env args w = ?A @ ?L @ ?R"
    unfolding handleSendMessage_turnOf [OF turn] runTurn_def Let_def
    by (simp add: body)
  have noA: "UpdateConversation cid x \<notin> set ?A" for x
    using no_title_beforeStream no_title_streamOpenPhase by simp
  have noR: "UpdateConversation cid x \<notin> set ?R" for x
    using no_title_afterStream no_title_catch_finally by simp
  have disp: "content (last (last (messageTrace
        (messageUpdates cid (?A @ concat (map (chunkEffects cid w) [0..<Suc k]))) ms0))) =
      stripTitle (accumulated (chunks w) (Suc k))" for k
  proof -
    have "?A @ concat (map (chunkEffects cid w) [0..<Suc k]) =
        (?A @ concat (map (chunkEffects cid w) [0..<k])) @ chunkEffects cid w k"
      by simp
    then show ?thesis
      unfolding messagesAfter_trace
      using messagesAfter_chunkEffects
        [of cid "?A @ concat (map (chunkEffects cid w) [0..<k])" w k ms0]
      by simp
  qed
  have first: "\<exists>A B.
            handleSendMessage env args w =
              A @ concat (map (chunkEffects cid w) [0..<length (chunks w)]) @ B \<and>
            (\<forall>x. UpdateConversation cid x \<notin> set A) \<and>
            (\<forall>x. UpdateConversation cid x \<notin> set B) \<and>
            (\<forall>k < length (chunks w).
               content (last (last (messageTrace
                 (messageUpdates cid (A @ concat (map (chunkEffects cid w) [0..<Suc k]))) ms0))) =
               stripTitle (accumulated (chunks w) (Suc k)))"
    apply (rule exI [of _ ?A])
    apply (rule exI [of _ ?R])
    using eq noA noR disp by blast
  have commit: "titleStep (chunks w) k = [SetTitle (js_trim g)]"
    if "\<not> list_ex (\<lambda>j. extractionOver (accumulated (chunks w) j)) [1..<Suc k]"
      "titleMatch (accumulated (chunks w) (Suc k)) = Some g" for k g
    using that unfolding titleStep_def by simp
  have stop: "titleStep (chunks w) k = []"
    if "1 \<le> j" "j \<le> k" "titleMatch (accumulated (chunks w) j) \<noteq> None"
      "CHR 0x0A \<in> set (accumulated (chunks w) j)" for j k
  proof -
    from that(3,4) have "extractionOver (accumulated (chunks w) j)"
      by (auto simp add: extractionOver_def)
    moreover from that(1,2) have "j \<in> set [1..<Suc k]" by auto
    ultimately have "list_ex (\<lambda>j. extractionOver (accumulated (chunks w) j)) [1..<Suc k]"
      unfolding list_ex_iff by blast
    then show ?thesis unfolding titleStep_def by simp
  qed
  have line: "titleStep (chunks w) k = [SetTitle (js_trim t)] \<and>
            stripTitle (accumulated (chunks w) (Suc k)) = body"
    if "accumulated (chunks w) (Suc k) = ''TITLE:'' @ ws @ t @ CHR 0x0A # body"
      "\<forall>x \<in> set ws. js_whitespace x" "t \<noteq> []" "\<not> js_whitespace (hd t)"
      "CHR 0x0A \<notin> set t" "CHR 0x0A \<notin> set (accumulated (chunks w) k)" for k ws t body
    using titleStep_complete_line [OF that] by simp
  from first commit stop line show ?thesis by blast
qed

theorem title_extraction_first_turn_witness:
  "\<not> sendRejected exampleEnv exampleArgs \<and>
   turnOf exampleEnv
     (exampleWorld\<lparr> chunks :=
        [\<lparr> chunkText = ''TITLE: Trip'', chunkUsage = None, groundingChunks = None \<rparr>,
         \<lparr> chunkText = '' Planning\<newline>Here is...'', chunkUsage = None,
           groundingChunks = None \<rparr>] \<rparr>) = Some (''conv-new'', True, []) \<and>
   (\<exists>A B.
      handleSendMessage exampleEnv exampleArgs
        (exampleWorld\<lparr> chunks :=
           [\<lparr> chunkText = ''TITLE: Trip'', chunkUsage = None, groundingChunks = None \<rparr>,
            \<lparr> chunkText = '' Planning\<newline>Here is...'', chunkUsage = None,
              groundingChunks = None \<rparr>] \<rparr>) =
        A @
        [UpdateConversation ''conv-new'' (SetTitle ''Trip''),
         UpdateConversationMessages ''conv-new''
           (StreamChunk [] None ''msg-extra'' ''2025-01-01T00:00:00.000Z''),
         UpdateConversation ''conv-new'' (SetTitle ''Trip Planning''),
         UpdateConversationMessages ''conv-new''
           (StreamChunk ''Here is...'' None ''msg-extra'' ''2025-01-01T00:00:00.000Z'')] @ B \<and>
      content (last (last (messageTrace (messageUpdates ''conv-new''
        (A @
         [UpdateConversation ''conv-new'' (SetTitle ''Trip''),
          UpdateConversationMessages ''conv-new''
            (StreamChunk [] None ''msg-extra'' ''2025-01-01T00:00:00.000Z''),
          UpdateConversation ''conv-new'' (SetTitle ''Trip Planning''),
          UpdateConversationMessages ''conv-new''
            (StreamChunk ''Here is...'' None ''msg-extra'' ''2025-01-01T00:00:00.000Z'')]))
        []))) = ''Here is...'') \<and>
   titleStep
     [\<lparr> chunkText = ''TITLE: Trip'', chunkUsage = None, groundingChunks = None \<rparr>,
      \<lparr> chunkText = '' Planning\<newline>Here is...'', chunkUsage = None,
        groundingChunks = None \<rparr>] 1 = [SetTitle ''Trip Planning'']"
proof -
  let ?cs = "[\<lparr> chunkText = ''TITLE: Trip'', chunkUsage = None, groundingChunks = None \<rparr>,
      \<lparr> chunkText = '' Planning\<newline>Here is...'', chunkUsage = None,
        groundingChunks = None \<rparr>]"
  let ?w = "exampleWorld\<lparr> chunks := ?cs \<rparr>"
  let ?seg = "[UpdateConversation ''conv-new'' (SetTitle ''Trip''),
         UpdateConversationMessages ''conv-new''
           (StreamChunk [] None ''msg-extra'' ''2025-01-01T00:00:00.000Z''),
         UpdateConversation ''conv-new'' (SetTitle ''Trip Planning''),
         UpdateConversationMessages ''conv-new''
           (StreamChunk ''Here is...'' None ''msg-extra'' ''2025-01-01T00:00:00.000Z'')]"
  have guard: "\<not> sendRejected exampleEnv exampleArgs"
    by (simp add: sendRejected_def example_defs truthyString_def js_trim_def js_whitespace_def)
  have turn: "turnOf exampleEnv ?w = Some (''conv-new'', True, [])"
    by (simp add: turnOf_def example_defs truthyString_def)
  obtain v where v: "snd (beforeStream exampleEnv exampleArgs ?w ''conv-new'') = Continue v"
    and parts: "userMessageParts exampleArgs v \<noteq> []"
    by (simp add: eval_defs)
  have normal: "streamOpenError ?w = None" "cancelAt ?w = None"
    by (simp_all add: exampleWorld_def)
  have cs: "chunks ?w = ?cs" by simp
  have acc: "accumulated ?cs (Suc 0) = ''TITLE: Trip''"
    "accumulated ?cs (Suc 1) = ''TITLE:'' @ '' '' @ ''Trip Planning'' @ CHR 0x0A # ''Here is...''"
    by (simp_all add: accumulated_def)
  have t1: "titleStep ?cs 0 = [SetTitle ''Trip'']"
    by (simp add: titleStep_def accumulated_def titleMatch_def js_trim_def js_whitespace_def)
  have d1: "stripTitle (accumulated ?cs (Suc 0)) = []"
    by (simp add: accumulated_def stripTitle_def js_whitespace_def)
  note inst = title_extraction_first_turn [OF guard turn v parts normal, of "[]"]
  have hyp: "accumulated (chunks ?w) (Suc 1) = ''TITLE:'' @ '' '' @ ''Trip Planning'' @ CHR 0x0A # ''Here is...'' \<and>
      (\<forall>x \<in> set '' ''. js_whitespace x) \<and> ''Trip Planning'' \<noteq> [] \<and>
      \<not> js_whitespace (hd ''Trip Planning'') \<and> CHR 0x0A \<notin> set ''Trip Planning'' \<and>
      CHR 0x0A \<notin> set (accumulated (chunks ?w) 1)"
    by (simp add: accumulated_def js_whitespace_def)
  note line = inst [THEN conjunct2, THEN conjunct2, THEN conjunct2, rule_format,
      of 1 "'' ''" "''Trip Planning''" "''Here is...''"]
  have t2': "titleStep (chunks ?w) 1 = [SetTitle (js_trim ''Trip Planning'')] \<and>
      stripTitle (accumulated (chunks ?w) (Suc 1)) = ''Here is...''"
    by (rule line) (rule hyp)
  from t2' have t2: "titleStep ?cs 1 = [SetTitle ''Trip Planning'']"
    and d2: "stripTitle (accumulated ?cs (Suc 1)) = ''Here is...''"
    by (simp_all add: js_trim_def js_whitespace_def)
  have seg: "concat (map (chunkEffects ''conv-new'' ?w) [0..<length (chunks ?w)]) = ?seg"
    "concat (map (chunkEffects ''conv-new'' ?w) [0..<Suc 1]) = ?seg"
    using t1 t2 d1 d2 by (simp_all add: chunkEffects_def exampleWorld_def)
  from inst [THEN conjunct1] obtain A where "\<exists>B.
      handleSendMessage exampleEnv exampleArgs ?w =
        A @ concat (map (chunkEffects ''conv-new'' ?w) [0..<length (chunks ?w)]) @ B \<and>
      (\<forall>x. UpdateConversation ''conv-new'' x \<notin> set A) \<and>
      (\<forall>x. UpdateConversation ''conv-new'' x \<notin> set B) \<and>
      (\<forall>k < length (chunks ?w).
         content (last (last (messageTrace
           (messageUpdates ''conv-new'' (A @ concat (map (chunkEffects ''conv-new'' ?w) [0..<Suc k]))) []))) =
         stripTitle (accumulated (chunks ?w) (Suc k)))"
    by (rule exE)
  then obtain B where all: "handleSendMessage exampleEnv exampleArgs ?w =
        A @ concat (map (chunkEffects ''conv-new'' ?w) [0..<length (chunks ?w)]) @ B \<and>
      (\<forall>x. UpdateConversation ''conv-new'' x \<notin> set A) \<and>
      (\<forall>x. UpdateConversation ''conv-new'' x \<notin> set B) \<and>
      (\<forall>k < length (chunks ?w).
         content (last (last (messageTrace
           (messageUpdates ''conv-new'' (A @ concat (map (chunkEffects ''conv-new'' ?w) [0..<Suc k]))) []))) =
         stripTitle (accumulated (chunks ?w) (Suc k)))"
    by (rule exE)
  note eq = all [THEN conjunct1]
  note disp = all [THEN conjunct2, THEN conjunct2, THEN conjunct2, rule_format, of 1]
  have "1 < length (chunks ?w)" by simp
  from disp [OF this]
  have show2: "content (last (last (messageTrace (messageUpdates ''conv-new'' (A @ ?seg)) []))) =
      ''Here is...''"
    unfolding seg(2) t2' [THEN conjunct2] .
  from eq have show1: "handleSendMessage exampleEnv exampleArgs ?w = A @ ?seg @ B"
    unfolding seg(1) .
  have ex: "\<exists>A B. handleSendMessage exampleEnv exampleArgs ?w = A @ ?seg @ B \<and>
      content (last (last (messageTrace (messageUpdates ''conv-new'' (A @ ?seg)) []))) =
        ''Here is...''"
    apply (rule exI [of _ A])
    apply (rule exI [of _ B])
    apply (rule conjI)
     apply (rule show1)
    apply (rule show2)
    done
  show ?thesis
    apply (intro conjI)
       apply (rule guard)
      apply (rule turn)
     apply (rule ex)
    apply (rule t2)
    done
qed

section \<open>Cancelled runs\<close>



























end
